theory Spec2Isabelle
  imports Main
begin

section \<open>Python values used by the manifest code\<close>

text \<open>
  Optional string fields (\<^verbatim>\<open>Optional[str]\<close>) are \<open>string option\<close>. The source tests them
  by truthiness (\<^verbatim>\<open>if url\<close>, \<^verbatim>\<open>a or b\<close>): \<^verbatim>\<open>None\<close> and the empty string are both false.
\<close>

definition truthy :: "string option \<Rightarrow> bool" where
  "truthy v = (case v of None \<Rightarrow> False | Some s \<Rightarrow> s \<noteq> [])"

text \<open>\<^verbatim>\<open>a or b\<close> on two optional strings.\<close>

definition py_or :: "string option \<Rightarrow> string option \<Rightarrow> string option" where
  "py_or a b = (if truthy a then a else b)"

text \<open>\<^verbatim>\<open>a or s\<close> where \<open>s\<close> is a plain string (\<^verbatim>\<open>project.path or project.name\<close>).\<close>

definition py_or_str :: "string option \<Rightarrow> string \<Rightarrow> string" where
  "py_or_str a s = (case a of None \<Rightarrow> s | Some t \<Rightarrow> (if t \<noteq> [] then t else s))"

text \<open>What an f-string prints for an optional string: \<^verbatim>\<open>None\<close> prints as the text None.\<close>

definition py_str :: "string option \<Rightarrow> string" where
  "py_str v = (case v of None \<Rightarrow> ''None'' | Some s \<Rightarrow> s)"

datatype error =
    ManifestNotFoundError string
  | ManifestError string string
  | ValueError string
  | ValidationError string
  | TypeError string
  | AttributeError string
  | YAMLError string
  | AssertionError

section \<open>manifest.py: the data containers\<close>

record Remote =
  Remote_name :: string
  Remote_url_base :: "string option"

record Defaults =
  Defaults_remote :: "string option"
  Defaults_revision :: "string option"

record Project =
  Project_name :: string
  Project_remote :: "string option"
  Project_sub_url :: "string option"
  Project_url :: "string option"
  Project_revision :: "string option"
  Project_path :: "string option"

record Manifest =
  Manifest_main :: Project
  Manifest_defaults :: Defaults
  Manifest_remotes :: "Remote list"
  Manifest_projects :: "Project list"

record ResolvedProject =
  Resolved_name :: string
  Resolved_path :: string
  Resolved_url :: "string option"
  Resolved_revision :: "string option"
  Resolved_manifest :: "Manifest option"

subsection \<open>Project._remote_or_url\<close>

text \<open>
  The root validator of \<^verbatim>\<open>Project\<close>: three checks in the source's order, each raising
  \<^verbatim>\<open>ValueError\<close>; otherwise the values are returned unchanged.
\<close>

text \<open>The quoted field names of the messages: \<open>quoted ''url''\<close> is the text 'url'.\<close>

definition quoted :: "string \<Rightarrow> string" where
  "quoted s = [CHR 0x27] @ s @ [CHR 0x27]"

definition remote_or_url :: "Project \<Rightarrow> error + Project" where
  "remote_or_url values =
     (let remote = Project_remote values;
          sub_url = Project_sub_url values;
          url = Project_url values
      in if truthy remote \<and> truthy url
           then Inl (ValueError (quoted ''remote'' @ '' and '' @ quoted ''url'' @ '' are mutually exclusive''))
         else if truthy url \<and> truthy sub_url
           then Inl (ValueError (quoted ''url'' @ '' and '' @ quoted ''sub-url'' @ '' are mutually exclusive''))
         else if truthy sub_url \<and> \<not> truthy remote
           then Inl (ValueError (quoted ''sub-url'' @ '' requires '' @ quoted ''remote''))
         else Inr values)"

text \<open>
  Constructing a \<^verbatim>\<open>Project\<close> from field values runs the validator; pydantic reports a
  \<^verbatim>\<open>ValueError\<close> of a validator as its \<^verbatim>\<open>ValidationError\<close>.
\<close>

definition Project_init :: "Project \<Rightarrow> error + Project" where
  "Project_init values =
     (case remote_or_url values of
        Inl (ValueError msg) \<Rightarrow> Inl (ValidationError msg)
      | Inl e \<Rightarrow> Inl e
      | Inr v \<Rightarrow> Inr v)"

subsection \<open>ResolvedProject.from_project\<close>

text \<open>
  The \<^verbatim>\<open>for remote in remotes: ... break ... else: raise\<close> loop: the first alias whose name
  equals the wanted one, \<open>None\<close> when the loop runs to its \<^verbatim>\<open>else\<close>.
\<close>

fun find_remote :: "string option \<Rightarrow> Remote list \<Rightarrow> Remote option" where
  "find_remote project_remote [] = None"
| "find_remote project_remote (remote # remotes) =
     (if Some (Remote_name remote) = project_remote then Some remote
      else find_remote project_remote remotes)"

definition from_project :: "Defaults \<Rightarrow> Remote list \<Rightarrow> Project \<Rightarrow> error + ResolvedProject" where
  "from_project defaults remotes project =
     (let url = Project_url project;
          assembled =
            (if \<not> truthy url then
               (let project_remote = py_or (Project_remote project) (Defaults_remote defaults)
                in if truthy project_remote then
                     (let project_sub_url = py_or_str (Project_sub_url project) (Project_name project)
                      in case find_remote project_remote remotes of
                           Some remote \<Rightarrow>
                             Inr (Some (py_str (Remote_url_base remote) @ ''/'' @ project_sub_url))
                         | None \<Rightarrow>
                             Inl (ValueError (''Unknown remote '' @ py_str (Project_remote project)
                                    @ '' for project '' @ Project_name project)))
                   else Inr url)
             else Inr url)
      in case assembled of
           Inl e \<Rightarrow> Inl e
         | Inr url' \<Rightarrow>
             Inr \<lparr> Resolved_name = Project_name project,
                   Resolved_path = py_or_str (Project_path project) (Project_name project),
                   Resolved_url = url',
                   Resolved_revision = py_or (Project_revision project) (Defaults_revision defaults),
                   Resolved_manifest = None \<rparr>)"

subsection \<open>Manifest.load and Manifest.save\<close>

text \<open>
  What \<^verbatim>\<open>yaml.load\<close> returns and \<^verbatim>\<open>yaml.dump\<close> takes: the manifest format uses
  null, strings, lists and mappings with string keys. A mapping is an association list;
  a lookup reads the first entry of a key.
\<close>

datatype yaml = YNone | YStr string | YList "yaml list" | YDict "(string \<times> yaml) list"

text \<open>Sequencing of steps that may raise: the first exception ends the computation.\<close>

definition bind_error :: "error + 'a \<Rightarrow> ('a \<Rightarrow> error + 'b) \<Rightarrow> error + 'b" where
  "bind_error r f = (case r of Inl e \<Rightarrow> Inl e | Inr v \<Rightarrow> f v)"

fun map_error :: "('a \<Rightarrow> error + 'b) \<Rightarrow> 'a list \<Rightarrow> error + 'b list" where
  "map_error f [] = Inr []"
| "map_error f (x # xs) =
     bind_error (f x) (\<lambda>y. bind_error (map_error f xs) (\<lambda>ys. Inr (y # ys)))"

text \<open>
  \<^verbatim>\<open>data.get(key, default)\<close>: only a mapping has the method; on any other value of the
  parsed document the attribute lookup raises.
\<close>

definition dict_get :: "yaml \<Rightarrow> string \<Rightarrow> yaml \<Rightarrow> error + yaml" where
  "dict_get data key default_value =
     (case data of
        YDict kvs \<Rightarrow> Inr (case map_of kvs key of None \<Rightarrow> default_value | Some v \<Rightarrow> v)
      | _ \<Rightarrow> Inl (AttributeError ''get''))"

text \<open>
  Field parsing of the pydantic models. A field with an alias is read by its alias and,
  as the models allow population by field name, else by its name. Unknown keys are ignored.
  Of the errors pydantic collects, the model reports the first in field order.
\<close>

definition get_field :: "(string \<times> yaml) list \<Rightarrow> string \<Rightarrow> string \<Rightarrow> yaml option" where
  "get_field kvs alias field_name =
     (case map_of kvs alias of Some v \<Rightarrow> Some v | None \<Rightarrow> map_of kvs field_name)"

definition parse_str :: "yaml option \<Rightarrow> error + string" where
  "parse_str v =
     (case v of
        None \<Rightarrow> Inl (ValidationError ''field required'')
      | Some YNone \<Rightarrow> Inl (ValidationError ''none is not an allowed value'')
      | Some (YStr s) \<Rightarrow> Inr s
      | Some _ \<Rightarrow> Inl (ValidationError ''str type expected''))"

definition parse_optional_str :: "yaml option \<Rightarrow> error + string option" where
  "parse_optional_str v =
     (case v of
        None \<Rightarrow> Inr None
      | Some YNone \<Rightarrow> Inr None
      | Some (YStr s) \<Rightarrow> Inr (Some s)
      | Some _ \<Rightarrow> Inl (ValidationError ''str type expected''))"

definition parse_model :: "((string \<times> yaml) list \<Rightarrow> error + 'a) \<Rightarrow> yaml \<Rightarrow> error + 'a" where
  "parse_model parse v =
     (case v of
        YDict kvs \<Rightarrow> parse kvs
      | YNone \<Rightarrow> Inl (ValidationError ''none is not an allowed value'')
      | _ \<Rightarrow> Inl (ValidationError ''value is not a valid dict''))"

definition parse_list :: "(yaml \<Rightarrow> error + 'a) \<Rightarrow> yaml \<Rightarrow> error + 'a list" where
  "parse_list parse v =
     (case v of
        YList vs \<Rightarrow> map_error parse vs
      | YNone \<Rightarrow> Inl (ValidationError ''none is not an allowed value'')
      | _ \<Rightarrow> Inl (ValidationError ''value is not a valid list''))"

definition Remote_parse :: "(string \<times> yaml) list \<Rightarrow> error + Remote" where
  "Remote_parse kvs =
     bind_error (parse_str (map_of kvs ''name'')) (\<lambda>name.
     bind_error (parse_optional_str (get_field kvs ''url-base'' ''url_base'')) (\<lambda>url_base.
     Inr \<lparr> Remote_name = name, Remote_url_base = url_base \<rparr>))"

definition Defaults_parse :: "(string \<times> yaml) list \<Rightarrow> error + Defaults" where
  "Defaults_parse kvs =
     bind_error (parse_optional_str (map_of kvs ''remote'')) (\<lambda>remote.
     bind_error (parse_optional_str (map_of kvs ''revision'')) (\<lambda>revision.
     Inr \<lparr> Defaults_remote = remote, Defaults_revision = revision \<rparr>))"

definition Project_parse :: "(string \<times> yaml) list \<Rightarrow> error + Project" where
  "Project_parse kvs =
     bind_error (parse_str (map_of kvs ''name'')) (\<lambda>name.
     bind_error (parse_optional_str (map_of kvs ''remote'')) (\<lambda>remote.
     bind_error (parse_optional_str (get_field kvs ''sub-url'' ''sub_url'')) (\<lambda>sub_url.
     bind_error (parse_optional_str (map_of kvs ''url'')) (\<lambda>url.
     bind_error (parse_optional_str (map_of kvs ''revision'')) (\<lambda>revision.
     bind_error (parse_optional_str (map_of kvs ''path'')) (\<lambda>path.
     Project_init \<lparr> Project_name = name, Project_remote = remote, Project_sub_url = sub_url,
                    Project_url = url, Project_revision = revision, Project_path = path \<rparr>))))))"

text \<open>The field defaults of \<^verbatim>\<open>Manifest\<close>: \<^verbatim>\<open>Project(name="main")\<close> and \<^verbatim>\<open>Defaults()\<close>.\<close>

definition main_default :: Project where
  "main_default =
     \<lparr> Project_name = ''main'', Project_remote = None, Project_sub_url = None,
       Project_url = None, Project_revision = None, Project_path = None \<rparr>"

definition Defaults_default :: Defaults where
  "Defaults_default = \<lparr> Defaults_remote = None, Defaults_revision = None \<rparr>"

definition parse_default :: "'a \<Rightarrow> (yaml \<Rightarrow> error + 'a) \<Rightarrow> yaml option \<Rightarrow> error + 'a" where
  "parse_default default_value parse v = (case v of None \<Rightarrow> Inr default_value | Some y \<Rightarrow> parse y)"

definition Manifest_parse :: "(string \<times> yaml) list \<Rightarrow> error + Manifest" where
  "Manifest_parse kvs =
     bind_error (parse_default main_default (parse_model Project_parse)
                   (get_field kvs ''self'' ''main'')) (\<lambda>main.
     bind_error (parse_default Defaults_default (parse_model Defaults_parse)
                   (map_of kvs ''defaults'')) (\<lambda>defaults.
     bind_error (parse_default [] (parse_list (parse_model Remote_parse))
                   (map_of kvs ''remotes'')) (\<lambda>remotes.
     bind_error (parse_default [] (parse_list (parse_model Project_parse))
                   (map_of kvs ''projects'')) (\<lambda>projects.
     Inr \<lparr> Manifest_main = main, Manifest_defaults = defaults,
           Manifest_remotes = remotes, Manifest_projects = projects \<rparr>))))"

text \<open>\<^verbatim>\<open>cls(**manifestdata)\<close>: the argument after \<^verbatim>\<open>**\<close> must be a mapping.\<close>

definition Manifest_init :: "yaml \<Rightarrow> error + Manifest" where
  "Manifest_init manifestdata =
     (case manifestdata of
        YDict kvs \<Rightarrow> Manifest_parse kvs
      | _ \<Rightarrow> Inl (TypeError ''argument after ** must be a mapping''))"

text \<open>
  \<^verbatim>\<open>Manifest.load\<close>. The file system maps a path to the text of the file there, if any;
  \<^verbatim>\<open>yaml.load\<close> is a parameter, raising its own error on text it cannot parse.
\<close>

definition load :: "('c \<Rightarrow> error + yaml) \<Rightarrow> (string \<Rightarrow> 'c option) \<Rightarrow> string \<Rightarrow> error + Manifest" where
  "load yaml_load fs path =
     (case fs path of
        None \<Rightarrow> Inl (ManifestNotFoundError path)
      | Some content \<Rightarrow>
          bind_error (yaml_load content) (\<lambda>data.
          bind_error (dict_get data ''manifest'' (YDict [])) (\<lambda>manifestdata.
          Manifest_init manifestdata)))"

text \<open>
  \<^verbatim>\<open>self.dict(by_alias=True, exclude_none=True)\<close>: the fields in declaration order under
  their aliases, a field that is \<^verbatim>\<open>None\<close> left out.
\<close>

definition dict_entry :: "string \<Rightarrow> string option \<Rightarrow> (string \<times> yaml) list" where
  "dict_entry key v = (case v of None \<Rightarrow> [] | Some s \<Rightarrow> [(key, YStr s)])"

definition Remote_dict :: "Remote \<Rightarrow> yaml" where
  "Remote_dict r =
     YDict ([(''name'', YStr (Remote_name r))] @ dict_entry ''url-base'' (Remote_url_base r))"

definition Defaults_dict :: "Defaults \<Rightarrow> yaml" where
  "Defaults_dict d =
     YDict (dict_entry ''remote'' (Defaults_remote d) @ dict_entry ''revision'' (Defaults_revision d))"

definition Project_dict :: "Project \<Rightarrow> yaml" where
  "Project_dict p =
     YDict ([(''name'', YStr (Project_name p))]
            @ dict_entry ''remote'' (Project_remote p)
            @ dict_entry ''sub-url'' (Project_sub_url p)
            @ dict_entry ''url'' (Project_url p)
            @ dict_entry ''revision'' (Project_revision p)
            @ dict_entry ''path'' (Project_path p))"

definition Manifest_dict :: "Manifest \<Rightarrow> yaml" where
  "Manifest_dict m =
     YDict [(''self'', Project_dict (Manifest_main m)),
            (''defaults'', Defaults_dict (Manifest_defaults m)),
            (''remotes'', YList (map Remote_dict (Manifest_remotes m))),
            (''projects'', YList (map Project_dict (Manifest_projects m)))]"

text \<open>
  \<^verbatim>\<open>Manifest.save\<close>: the file at \<open>path\<close> is written with the dumped document
  (directories are not modelled, so creating the parents changes nothing).
\<close>

definition save :: "(yaml \<Rightarrow> 'c) \<Rightarrow> (string \<Rightarrow> 'c option) \<Rightarrow> Manifest \<Rightarrow> string \<Rightarrow> (string \<Rightarrow> 'c option)" where
  "save yaml_dump fs self path =
     fs(path \<mapsto> yaml_dump (YDict [(''manifest'', Manifest_dict self)]))"

section \<open>iters.py: the manifest and project iterators\<close>

text \<open>
  \<^verbatim>\<open>iters.py\<close> names the classes of \<^verbatim>\<open>manifest.py\<close> by their later names: its
  \<^verbatim>\<open>ManifestSpec\<close> is the manifest document (\<^typ>\<open>Manifest\<close>, whose \<^verbatim>\<open>dependencies\<close> are
  the field \<^const>\<open>Manifest_projects\<close>), its \<^verbatim>\<open>ProjectSpec\<close> the declaration
  (\<^typ>\<open>Project\<close>), and its \<^verbatim>\<open>Project\<close> the resolved project (\<^typ>\<open>ResolvedProject\<close>).
\<close>

type_synonym ManifestSpec = Manifest
type_synonym ProjectSpec = Project

subsection \<open>The collaborators\<close>

text \<open>
  The workspace, the files and the git adapter are outside the two iterators. A path is
  a string. \<open>files\<close> lists the manifest files that exist, each with what loading it
  gives (the document, or the error a broken file raises); \<open>manifest_path_of\<close> is the
  \<^verbatim>\<open>manifest_path\<close> attribute of the project at a path. \<open>url_join\<close> is what
  \<^verbatim>\<open>Project.from_spec\<close> makes of a URL when it is given a reference URL: neither the
  test whether the URL is relative nor the join is in the sources, so both stay open.
\<close>

record world =
  workspace_path :: string
  workspace_main_path :: string
  info_main_path :: string
  manifest_path_of :: "string \<Rightarrow> string"
  files :: "(string \<times> (error + ManifestSpec)) list"
  git_is_cloned :: "string \<Rightarrow> bool"
  git_get_url :: "string \<Rightarrow> string option"
  url_join :: "string \<Rightarrow> string \<Rightarrow> string"

text \<open>\<^verbatim>\<open>s.split("/")\<close> and \<^verbatim>\<open>"/".join(parts)\<close>.\<close>

fun split_slash :: "string \<Rightarrow> string list" where
  "split_slash [] = [[]]"
| "split_slash (c # cs) =
     (if c = CHR ''/'' then [] # split_slash cs
      else (case split_slash cs of [] \<Rightarrow> [[c]] | s # ss \<Rightarrow> (c # s) # ss))"

fun join_slash :: "string list \<Rightarrow> string" where
  "join_slash [] = []"
| "join_slash [s] = s"
| "join_slash (s # t # ss) = s @ ''/'' @ join_slash (t # ss)"

text \<open>
  \<^verbatim>\<open>pathlib.Path\<close> on POSIX. A path is kept as the string \<^verbatim>\<open>str(path)\<close>. \<^verbatim>\<open>Path(s)\<close> splits
  \<open>s\<close> into a root (\<^verbatim>\<open>/\<close>, or \<^verbatim>\<open>//\<close> for exactly two leading slashes, or none) and its
  parts, dropping empty parts and \<^verbatim>\<open>.\<close>; the path without root and parts prints as
  \<^verbatim>\<open>.\<close>. \<^verbatim>\<open>a / b\<close> is \<open>b\<close> when \<open>b\<close> has a root, else the parts of \<open>b\<close> after those of
  \<open>a\<close>; \<^verbatim>\<open>path.name\<close> is the last part, or the empty string without parts.
\<close>

definition path_root :: "string \<Rightarrow> string" where
  "path_root s =
     (if take 2 s = ''//'' \<and> take 3 s \<noteq> ''///'' then ''//''
      else if take 1 s = ''/'' then ''/''
      else [])"

definition path_parts :: "string \<Rightarrow> string list" where
  "path_parts s = filter (\<lambda>part. part \<noteq> [] \<and> part \<noteq> ''.'') (split_slash s)"

definition path_make :: "string \<Rightarrow> string list \<Rightarrow> string" where
  "path_make root parts = (if root = [] \<and> parts = [] then ''.'' else root @ join_slash parts)"

definition path_str :: "string \<Rightarrow> string" where
  "path_str s = path_make (path_root s) (path_parts s)"

definition path_div :: "string \<Rightarrow> string \<Rightarrow> string" where
  "path_div a b =
     (if path_root b \<noteq> [] then path_str b
      else path_make (path_root a) (path_parts a @ path_parts b))"

definition path_name :: "string \<Rightarrow> string" where
  "path_name p = (case rev (path_parts p) of [] \<Rightarrow> [] | part # _ \<Rightarrow> part)"

definition path_exists :: "world \<Rightarrow> string \<Rightarrow> bool" where
  "path_exists w p = (map_of (files w) p \<noteq> None)"

text \<open>\<^verbatim>\<open>ManifestSpec()\<close>, also the module constant \<^verbatim>\<open>_MANIFEST_DEFAULT\<close>.\<close>

definition MANIFEST_DEFAULT :: ManifestSpec where
  "MANIFEST_DEFAULT =
     \<lparr> Manifest_main = main_default, Manifest_defaults = Defaults_default,
       Manifest_remotes = [], Manifest_projects = [] \<rparr>"

text \<open>
  Modelled from the spec: \<^verbatim>\<open>ManifestSpec.load(path, default=...)\<close>, which is not in
  \<^verbatim>\<open>manifest.py\<close>. It loads like \<^const>\<open>load\<close>, and returns \<open>default\<close> instead of
  raising when the file is missing and a default is given.
\<close>

definition ManifestSpec_load :: "world \<Rightarrow> string \<Rightarrow> ManifestSpec option \<Rightarrow> error + ManifestSpec" where
  "ManifestSpec_load w path default_value =
     (case map_of (files w) path of
        None \<Rightarrow>
          (case default_value of
             None \<Rightarrow> Inl (ManifestNotFoundError path)
           | Some m \<Rightarrow> Inr m)
      | Some loaded \<Rightarrow> loaded)"

subsection \<open>Resolving a declaration against a reference URL\<close>

text \<open>
  Modelled from the spec: \<^verbatim>\<open>Project.from_spec(defaults, remotes, spec, refurl)\<close>, which is
  not in \<^verbatim>\<open>manifest.py\<close>. It resolves like \<^const>\<open>from_project\<close>; when a reference URL is
  supplied, the resolved or explicit URL goes through \<open>join\<close>, which leaves an absolute
  URL as it is and joins a relative one against the reference URL.
\<close>

definition from_spec ::
  "(string \<Rightarrow> string \<Rightarrow> string) \<Rightarrow> Defaults \<Rightarrow> Remote list \<Rightarrow> ProjectSpec \<Rightarrow> string option
     \<Rightarrow> error + ResolvedProject" where
  "from_spec join defaults remotes spec refurl =
     (case from_project defaults remotes spec of
        Inl e \<Rightarrow> Inl e
      | Inr dep \<Rightarrow>
          (case (refurl, Resolved_url dep) of
             (Some r, Some url) \<Rightarrow> Inr (dep \<lparr> Resolved_url := Some (join r url) \<rparr>)
           | _ \<Rightarrow> Inr dep))"

subsection \<open>ProjectIter\<close>

text \<open>
  A run of a generator is the list of elements it yielded, the list \<open>done\<close> it leaves
  behind, and the exception that ended it, if one did.
\<close>

type_synonym 'a run = "'a list \<times> string list \<times> error option"

text \<open>
  The first loop of \<^verbatim>\<open>ProjectIter.__iter\<close>, over \<^verbatim>\<open>manifest.dependencies\<close>: the result is
  the projects yielded, the list \<open>deps\<close> collected for the second loop, \<open>done\<close>, and
  the exception if resolving a declaration or loading a manifest raised.
\<close>

fun project_loop ::
  "world \<Rightarrow> Defaults \<Rightarrow> Remote list \<Rightarrow> string option \<Rightarrow> ProjectSpec list \<Rightarrow> string list
     \<Rightarrow> ResolvedProject list \<times> (string \<times> ManifestSpec) list \<times> string list \<times> error option" where
  "project_loop w defaults remotes refurl [] done = ([], [], done, None)"
| "project_loop w defaults remotes refurl (spec # specs) done =
     (case from_spec (url_join w) defaults remotes spec refurl of
        Inl e \<Rightarrow> ([], [], done, Some e)
      | Inr dep \<Rightarrow>
          if Resolved_path dep \<in> set done
          then project_loop w defaults remotes refurl specs done
          else
            (let done1 = done @ [Resolved_path dep];
                 dep_project_path = path_div (workspace_path w) (Resolved_path dep);
                 dep_manifest_path =
                   path_div dep_project_path (manifest_path_of w (Resolved_path dep))
             in case ManifestSpec_load w dep_manifest_path (Some MANIFEST_DEFAULT) of
                  Inl e \<Rightarrow> ([dep], [], done1, Some e)
                | Inr dep_manifest \<Rightarrow>
                    (case project_loop w defaults remotes refurl specs done1 of
                       (ys, deps, done2, err) \<Rightarrow>
                         (dep # ys,
                          (if dep_manifest \<noteq> MANIFEST_DEFAULT
                           then [(dep_project_path, dep_manifest)] else []) @ deps,
                          done2, err))))"

text \<open>
  \<^verbatim>\<open>ProjectIter.__iter\<close> and its second loop, which recurses into the collected
  manifests. The recursion follows the manifests on disk, so it is counted down from
  \<open>fuel\<close>: \<open>None\<close> means the count ran out.
\<close>

fun project_iter ::
  "nat \<Rightarrow> world \<Rightarrow> bool \<Rightarrow> string \<Rightarrow> ManifestSpec \<Rightarrow> string list \<Rightarrow> ResolvedProject run option"
and project_iter_deps ::
  "nat \<Rightarrow> world \<Rightarrow> bool \<Rightarrow> (string \<times> ManifestSpec) list \<Rightarrow> string list \<Rightarrow> ResolvedProject run option"
where
  "project_iter 0 w resolve_url project_path manifest done = None"
| "project_iter (Suc fuel) w resolve_url project_path manifest done =
     (if resolve_url \<and> \<not> git_is_cloned w project_path then Some ([], done, Some AssertionError)
      else
        (let refurl = (if resolve_url then git_get_url w project_path else None)
         in case project_loop w (Manifest_defaults manifest) (Manifest_remotes manifest) refurl
                   (Manifest_projects manifest) done of
              (ys, deps, done1, Some e) \<Rightarrow> Some (ys, done1, Some e)
            | (ys, deps, done1, None) \<Rightarrow>
                (case project_iter_deps fuel w resolve_url deps done1 of
                   None \<Rightarrow> None
                 | Some (ys', done2, err) \<Rightarrow> Some (ys @ ys', done2, err))))"
| "project_iter_deps fuel w resolve_url [] done = Some ([], done, None)"
| "project_iter_deps fuel w resolve_url ((dep_project_path, dep_manifest) # deps) done =
     (case project_iter fuel w resolve_url dep_project_path dep_manifest done of
        None \<Rightarrow> None
      | Some (ys, done1, Some e) \<Rightarrow> Some (ys, done1, Some e)
      | Some (ys, done1, None) \<Rightarrow>
          (case project_iter_deps fuel w resolve_url deps done1 of
             None \<Rightarrow> None
           | Some (ys', done2, err) \<Rightarrow> Some (ys @ ys', done2, err)))"

text \<open>The project yielded for the main project.\<close>

definition main_project :: "world \<Rightarrow> ResolvedProject" where
  "main_project w =
     \<lparr> Resolved_name = path_name (info_main_path w), Resolved_path = path_str (info_main_path w),
       Resolved_url = None, Resolved_revision = None, Resolved_manifest = None \<rparr>"

text \<open>\<^verbatim>\<open>ProjectIter.__iter__\<close>, on a fresh iterator (\<open>done\<close> is empty).\<close>

definition ProjectIter :: "nat \<Rightarrow> world \<Rightarrow> string \<Rightarrow> bool \<Rightarrow> bool \<Rightarrow> ResolvedProject run option" where
  "ProjectIter fuel w manifest_path skip_main resolve_url =
     (let main = (if \<not> skip_main then [main_project w] else [])
      in case ManifestSpec_load w manifest_path (Some MANIFEST_DEFAULT) of
           Inl e \<Rightarrow> Some (main, [], Some e)
         | Inr manifest \<Rightarrow>
             (case project_iter fuel w resolve_url (workspace_main_path w) manifest [] of
                None \<Rightarrow> None
              | Some (ys, done, err) \<Rightarrow> Some (main @ ys, done, err)))"

subsection \<open>ManifestIter\<close>

text \<open>
  Modelled from the spec: \<^verbatim>\<open>Manifest.from_spec(spec, path=...)\<close>, which is not in
  \<^verbatim>\<open>manifest.py\<close>: the document wrapped into a located manifest carrying its own file
  path. The path of one of its dependencies is the declaration's path or, without one,
  its name.
\<close>

record LocatedManifest =
  located_spec :: ManifestSpec
  located_path :: string

definition Manifest_from_spec :: "ManifestSpec \<Rightarrow> string \<Rightarrow> LocatedManifest" where
  "Manifest_from_spec spec path = \<lparr> located_spec = spec, located_path = path \<rparr>"

definition dependencies :: "LocatedManifest \<Rightarrow> ProjectSpec list" where
  "dependencies manifest = Manifest_projects (located_spec manifest)"

definition dep_path :: "ProjectSpec \<Rightarrow> string" where
  "dep_path dep_project = py_or_str (Project_path dep_project) (Project_name dep_project)"

text \<open>The first loop of \<^verbatim>\<open>ManifestIter.__iter\<close>: the collected \<open>deps\<close> and \<open>done\<close>.\<close>

fun manifest_loop ::
  "world \<Rightarrow> ProjectSpec list \<Rightarrow> string list \<Rightarrow> (string \<times> string) list \<times> string list" where
  "manifest_loop w [] done = ([], done)"
| "manifest_loop w (dep_project # rest) done =
     (if dep_path dep_project \<in> set done then manifest_loop w rest done
      else
        (let done1 = done @ [dep_path dep_project];
             dep_project_path = path_div (workspace_path w) (dep_path dep_project);
             dep_manifest_path =
               path_div dep_project_path (manifest_path_of w (dep_path dep_project))
         in case manifest_loop w rest done1 of
              (deps, done2) \<Rightarrow>
                ((if path_exists w dep_manifest_path
                  then [(dep_project_path, dep_manifest_path)] else []) @ deps,
                 done2)))"

text \<open>\<^verbatim>\<open>ManifestIter.__iter\<close> and its second loop, counted down from \<open>fuel\<close>.\<close>

fun manifest_iter ::
  "nat \<Rightarrow> world \<Rightarrow> string \<Rightarrow> string \<Rightarrow> string list \<Rightarrow> LocatedManifest run option"
and manifest_iter_deps ::
  "nat \<Rightarrow> world \<Rightarrow> (string \<times> string) list \<Rightarrow> string list \<Rightarrow> LocatedManifest run option"
where
  "manifest_iter 0 w project_path manifest_path done = None"
| "manifest_iter (Suc fuel) w project_path manifest_path done =
     (case ManifestSpec_load w manifest_path None of
        Inl e \<Rightarrow> Some ([], done, Some e)
      | Inr manifest_spec \<Rightarrow>
          (let manifest = Manifest_from_spec manifest_spec manifest_path
           in case manifest_loop w (dependencies manifest) done of
                (deps, done1) \<Rightarrow>
                  (case manifest_iter_deps fuel w deps done1 of
                     None \<Rightarrow> None
                   | Some (ys, done2, err) \<Rightarrow> Some (manifest # ys, done2, err))))"
| "manifest_iter_deps fuel w [] done = Some ([], done, None)"
| "manifest_iter_deps fuel w ((dep_project_path, dep_manifest_path) # deps) done =
     (case manifest_iter fuel w dep_project_path dep_manifest_path done of
        None \<Rightarrow> None
      | Some (ys, done1, Some e) \<Rightarrow> Some (ys, done1, Some e)
      | Some (ys, done1, None) \<Rightarrow>
          (case manifest_iter_deps fuel w deps done1 of
             None \<Rightarrow> None
           | Some (ys', done2, err) \<Rightarrow> Some (ys @ ys', done2, err)))"

text \<open>\<^verbatim>\<open>ManifestIter.__iter__\<close>, on a fresh iterator.\<close>

definition ManifestIter :: "nat \<Rightarrow> world \<Rightarrow> string \<Rightarrow> LocatedManifest run option" where
  "ManifestIter fuel w manifest_path =
     manifest_iter fuel w (workspace_main_path w) manifest_path []"

text \<open>
  The paths the manifest files of the world declare, file by file in document order.
  Every path an iterator can put on \<open>done\<close> is one of them.
\<close>

definition declared_paths :: "world \<Rightarrow> string list" where
  "declared_paths w =
     concat (map (\<lambda>(p, loaded). case loaded of Inl e \<Rightarrow> [] | Inr m \<Rightarrow> map dep_path (Manifest_projects m))
               (files w))"

section \<open>Notions used to state the properties of the iterators\<close>

text \<open>The manifest file of the project at a path, as both iterators compute it.\<close>

definition manifest_file :: "world \<Rightarrow> string \<Rightarrow> string" where
  "manifest_file w p = path_div (path_div (workspace_path w) p) (manifest_path_of w p)"

text \<open>The manifest \<^verbatim>\<open>ProjectIter\<close> loads for a project: the file's, or the empty default.\<close>

definition manifest_of :: "world \<Rightarrow> ResolvedProject \<Rightarrow> error + ManifestSpec" where
  "manifest_of w dep =
     ManifestSpec_load w (manifest_file w (Resolved_path dep)) (Some MANIFEST_DEFAULT)"

text \<open>The entries the first loop of \<^verbatim>\<open>ProjectIter.__iter\<close> collects for the projects it yields.\<close>

definition project_children :: "world \<Rightarrow> ResolvedProject list \<Rightarrow> (string \<times> ManifestSpec) list" where
  "project_children w ys =
     concat (map (\<lambda>dep. case manifest_of w dep of
                           Inl e \<Rightarrow> []
                         | Inr m \<Rightarrow> if m \<noteq> MANIFEST_DEFAULT
                                    then [(path_div (workspace_path w) (Resolved_path dep), m)]
                                    else []) ys)"

text \<open>A manifest all of whose declared paths are among those of the manifest files.\<close>

definition known :: "world \<Rightarrow> ManifestSpec \<Rightarrow> bool" where
  "known w m = (set (map dep_path (Manifest_projects m)) \<subseteq> set (declared_paths w))"

text \<open>
  What a run that started with \<open>done\<close> keeps: each element yielded appended its path to
  \<open>done\<close>, no path twice, and only declared paths.
\<close>

definition project_run_ok :: "world \<Rightarrow> string list \<Rightarrow> ResolvedProject run \<Rightarrow> bool" where
  "project_run_ok w done0 r =
     (case r of (ys, done', err) \<Rightarrow>
        done' = done0 @ map Resolved_path ys
        \<and> (distinct done0 \<longrightarrow> distinct done')
        \<and> set (map Resolved_path ys) \<subseteq> set (declared_paths w))"

text \<open>
  The paths a loop over declarations with the paths \<open>ps\<close> puts on \<open>done\<close>, in order: a
  path that is on \<open>done\<close> already, from an earlier manifest or from an earlier
  declaration of the same one, is passed over.
\<close>

fun first_reached :: "string list \<Rightarrow> string list \<Rightarrow> string list" where
  "first_reached [] done = []"
| "first_reached (p # ps) done =
     (if p \<in> set done then first_reached ps done
      else p # first_reached ps (done @ [p]))"

text \<open>The entry the first loop of \<^verbatim>\<open>ManifestIter.__iter\<close> collects for a path.\<close>

definition manifest_entry :: "world \<Rightarrow> string \<Rightarrow> string \<times> string" where
  "manifest_entry w p = (path_div (workspace_path w) p, manifest_file w p)"

text \<open>
  What a run of \<^verbatim>\<open>ManifestIter\<close> over the entries of the paths \<open>ds\<close>, started with
  \<open>done0\<close>, keeps: \<open>done\<close> grows by declared paths, none twice, and the manifests
  yielded are the manifest files of pairwise different paths, each one of \<open>ds\<close> or new
  on \<open>done\<close>.
\<close>

definition manifest_run_ok ::
  "world \<Rightarrow> string list \<Rightarrow> string list \<Rightarrow> LocatedManifest run \<Rightarrow> bool" where
  "manifest_run_ok w ds done0 r =
     (case r of (ys, done', err) \<Rightarrow>
        (\<exists>ps qs. done' = done0 @ ps
           \<and> set ps \<subseteq> set (declared_paths w)
           \<and> (distinct done0 \<longrightarrow> distinct done')
           \<and> map located_path ys = map (manifest_file w) qs
           \<and> set qs \<subseteq> set ds \<union> set ps
           \<and> (distinct done0 \<and> distinct ds \<and> set ds \<subseteq> set done0 \<longrightarrow> distinct qs)))"

text \<open>
  The same for one call of \<^verbatim>\<open>ManifestIter.__iter\<close> on the manifest file \<open>mp\<close>: the first
  manifest yielded is that of \<open>mp\<close>, the others are those of pairwise different new paths.
\<close>

definition manifest_iter_ok ::
  "world \<Rightarrow> string \<Rightarrow> string list \<Rightarrow> LocatedManifest run \<Rightarrow> bool" where
  "manifest_iter_ok w mp done0 r =
     (case r of (ys, done', err) \<Rightarrow>
        (\<exists>ps qs. done' = done0 @ ps
           \<and> set ps \<subseteq> set (declared_paths w)
           \<and> (distinct done0 \<longrightarrow> distinct done')
           \<and> (ys = [] \<and> qs = [] \<or> map located_path ys = mp # map (manifest_file w) qs)
           \<and> set qs \<subseteq> set ps
           \<and> (distinct done0 \<longrightarrow> distinct qs)))"

text \<open>
  A manifest is covered by \<open>done\<close> when the path of each of its declarations is on
  \<open>done\<close>; a run of \<^verbatim>\<open>ProjectIter\<close> is closed when that holds for the manifest of every
  project it yielded.
\<close>

definition covered :: "string list \<Rightarrow> ManifestSpec \<Rightarrow> bool" where
  "covered done0 m = (set (map dep_path (Manifest_projects m)) \<subseteq> set done0)"

definition closed_run :: "world \<Rightarrow> ResolvedProject list \<Rightarrow> string list \<Rightarrow> bool" where
  "closed_run w ys done0 =
     list_all (\<lambda>y. case manifest_of w y of Inl e \<Rightarrow> True | Inr m \<Rightarrow> covered done0 m) ys"

text \<open>
  What \<^verbatim>\<open>ProjectIter\<close> yields after the main project: one project for each path on
  \<open>done\<close>, in the order of \<open>done\<close>.
\<close>

definition dependency_part :: "bool \<Rightarrow> ResolvedProject list \<Rightarrow> ResolvedProject list" where
  "dependency_part skip_main ys = (if skip_main then ys else tl ys)"

text \<open>The manifests a run of \<^verbatim>\<open>ManifestIter\<close> yielded are those their files load.\<close>

definition loaded_run :: "world \<Rightarrow> LocatedManifest list \<Rightarrow> bool" where
  "loaded_run w ys =
     list_all (\<lambda>y. map_of (files w) (located_path y) = Some (Inr (located_spec y))) ys"

section \<open>Concrete inputs\<close>

subsection \<open>The repositories of the test fixture\<close>

text \<open>
  \<^verbatim>\<open>tests/fixtures.py\<close>: the manifest of \<^verbatim>\<open>main\<close> declares \<^verbatim>\<open>dep1\<close> and \<^verbatim>\<open>dep2\<close> (revision
  \<^verbatim>\<open>1-feature\<close>), that of \<^verbatim>\<open>dep1\<close> declares \<^verbatim>\<open>dep4\<close>, that of \<^verbatim>\<open>dep2\<close> declares \<^verbatim>\<open>dep3\<close> and
  \<^verbatim>\<open>dep4\<close>; \<^verbatim>\<open>dep3\<close> and \<^verbatim>\<open>dep4\<close> have no manifest. The workspace holds each project under
  its name.
\<close>

definition ProjectSpec_url :: "string \<Rightarrow> string \<Rightarrow> string option \<Rightarrow> ProjectSpec" where
  "ProjectSpec_url name url revision =
     \<lparr> Project_name = name, Project_remote = None, Project_sub_url = None,
       Project_url = Some url, Project_revision = revision, Project_path = None \<rparr>"

definition ManifestSpec_of :: "ProjectSpec list \<Rightarrow> ManifestSpec" where
  "ManifestSpec_of deps = MANIFEST_DEFAULT \<lparr> Manifest_projects := deps \<rparr>"

definition main_manifest :: ManifestSpec where
  "main_manifest =
     ManifestSpec_of [ProjectSpec_url ''dep1'' ''../dep1'' None,
                      ProjectSpec_url ''dep2'' ''../dep2'' (Some ''1-feature'')]"

definition dep1_manifest :: ManifestSpec where
  "dep1_manifest = ManifestSpec_of [ProjectSpec_url ''dep4'' ''../dep4'' None]"

definition dep2_manifest :: ManifestSpec where
  "dep2_manifest =
     ManifestSpec_of [ProjectSpec_url ''dep3'' ''../dep3'' None,
                      ProjectSpec_url ''dep4'' ''../dep4'' None]"

definition repos :: world where
  "repos =
     \<lparr> workspace_path = ''ws'',
       workspace_main_path = ''ws/main'',
       info_main_path = ''main'',
       manifest_path_of = (\<lambda>p. ''anyrepo.toml''),
       files = [(''ws/main/anyrepo.toml'', Inr main_manifest),
                (''ws/dep1/anyrepo.toml'', Inr dep1_manifest),
                (''ws/dep2/anyrepo.toml'', Inr dep2_manifest)],
       git_is_cloned = (\<lambda>p. True),
       git_get_url = (\<lambda>p. Some (''https://example.com/base/'' @ path_name p)),
       url_join = (\<lambda>refurl url. url) \<rparr>"

text \<open>A resolved project with nothing but name, path and revision.\<close>

definition resolved :: "string \<Rightarrow> string option \<Rightarrow> string option \<Rightarrow> ResolvedProject" where
  "resolved name url revision =
     \<lparr> Resolved_name = name, Resolved_path = name,
       Resolved_url = url, Resolved_revision = revision, Resolved_manifest = None \<rparr>"

subsection \<open>Declarations and remotes\<close>

definition origin :: Remote where
  "origin = \<lparr> Remote_name = ''origin'', Remote_url_base = Some ''https://example.com/base'' \<rparr>"

definition origin_defaults :: Defaults where
  "origin_defaults = \<lparr> Defaults_remote = Some ''origin'', Defaults_revision = None \<rparr>"

definition dep1_plain :: ProjectSpec where
  "dep1_plain =
     \<lparr> Project_name = ''dep1'', Project_remote = None, Project_sub_url = None,
       Project_url = None, Project_revision = None, Project_path = None \<rparr>"

definition dep1_origin :: ProjectSpec where
  "dep1_origin = dep1_plain \<lparr> Project_remote := Some ''origin'' \<rparr>"

definition dep1_empty_path :: ProjectSpec where
  "dep1_empty_path = dep1_plain \<lparr> Project_path := Some '''' \<rparr>"

definition dep1_empty_remote_with_url :: ProjectSpec where
  "dep1_empty_remote_with_url =
     dep1_plain \<lparr> Project_remote := Some '''', Project_url := Some ''../dep1'' \<rparr>"

definition dep1_remote_and_url :: ProjectSpec where
  "dep1_remote_and_url =
     dep1_plain \<lparr> Project_remote := Some ''origin'', Project_url := Some ''../dep1'' \<rparr>"

definition dep1_sub_url_only :: ProjectSpec where
  "dep1_sub_url_only = dep1_plain \<lparr> Project_sub_url := Some ''sub/dep1'' \<rparr>"

subsection \<open>Manifest files\<close>

text \<open>
  A manifest file whose single project sets both \<^verbatim>\<open>remote\<close> and \<^verbatim>\<open>url\<close>, as the parsed
  YAML document, and a file system holding it. Here the file content is the document
  itself and \<^verbatim>\<open>yaml.load\<close> returns it.
\<close>

definition broken_document :: yaml where
  "broken_document =
     YDict [(''manifest'',
       YDict [(''projects'',
         YList [YDict [(''name'', YStr ''dep1''), (''remote'', YStr ''origin''),
                       (''url'', YStr ''../dep1'')]])])]"

definition broken_fs :: "string \<Rightarrow> yaml option" where
  "broken_fs = [''anyrepo.yaml'' \<mapsto> broken_document]"

definition no_files :: "string \<Rightarrow> yaml option" where
  "no_files = (\<lambda>path. None)"

subsection \<open>A workspace with a cycle\<close>

text \<open>
  The manifest of \<^verbatim>\<open>main\<close> declares \<^verbatim>\<open>dep1\<close>, and the manifest of \<^verbatim>\<open>dep1\<close> declares \<^verbatim>\<open>main\<close>.
\<close>

definition cyclic_repos :: world where
  "cyclic_repos =
     repos \<lparr> files := [(''ws/main/anyrepo.toml'',
                          Inr (ManifestSpec_of [ProjectSpec_url ''dep1'' ''../dep1'' None])),
                       (''ws/dep1/anyrepo.toml'',
                          Inr (ManifestSpec_of [ProjectSpec_url ''main'' ''../main'' None]))] \<rparr>"

subsection \<open>What the iterators give on the fixture\<close>

definition fixture_projects :: "ResolvedProject list" where
  "fixture_projects =
     [resolved ''main'' None None,
      resolved ''dep1'' (Some ''../dep1'') None,
      resolved ''dep2'' (Some ''../dep2'') (Some ''1-feature''),
      resolved ''dep4'' (Some ''../dep4'') None,
      resolved ''dep3'' (Some ''../dep3'') None]"

definition fixture_manifests :: "LocatedManifest list" where
  "fixture_manifests =
     [Manifest_from_spec main_manifest ''ws/main/anyrepo.toml'',
      Manifest_from_spec dep1_manifest ''ws/dep1/anyrepo.toml'',
      Manifest_from_spec dep2_manifest ''ws/dep2/anyrepo.toml'']"

definition fixture_done :: "string list" where
  "fixture_done = [''dep1'', ''dep2'', ''dep4'', ''dep3'']"

definition dep4_spec :: ProjectSpec where
  "dep4_spec = ProjectSpec_url ''dep4'' ''../dep4'' None"

section \<open>Properties of the data containers\<close>

lemma truthy_simps [simp]:
  "truthy None = False" "truthy (Some s) = (s \<noteq> [])"
  by (simp_all add: truthy_def)

lemma py_or_str_if:
  "py_or_str v s = (if truthy v then the v else s)"
  by (cases v) (simp_all add: py_or_str_def)

lemma Project_init_cases:
  "Project_init p =
     (if truthy (Project_remote p) \<and> truthy (Project_url p)
        then Inl (ValidationError (quoted ''remote'' @ '' and '' @ quoted ''url'' @ '' are mutually exclusive''))
      else if truthy (Project_url p) \<and> truthy (Project_sub_url p)
        then Inl (ValidationError (quoted ''url'' @ '' and '' @ quoted ''sub-url'' @ '' are mutually exclusive''))
      else if truthy (Project_sub_url p) \<and> \<not> truthy (Project_remote p)
        then Inl (ValidationError (quoted ''sub-url'' @ '' requires '' @ quoted ''remote''))
      else Inr p)"
  by (simp add: Project_init_def remote_or_url_def Let_def)

subsection \<open>Validation of a declaration\<close>

text \<open>
  C8, as stated, fails: a field that is set to the empty string counts as not set. With
  \<^verbatim>\<open>remote=""\<close> and \<^verbatim>\<open>url="../dep1"\<close> both fields are set and \<^verbatim>\<open>sub_url\<close> is absent, and
  the declaration is constructed.
\<close>

theorem Project_init_accepts_empty_remote_with_url:
  "Project_sub_url dep1_empty_remote_with_url = None
   \<and> Project_remote dep1_empty_remote_with_url \<noteq> None
   \<and> Project_url dep1_empty_remote_with_url \<noteq> None
   \<and> Project_init dep1_empty_remote_with_url = Inr dep1_empty_remote_with_url"
  by (simp add: Project_init_cases dep1_empty_remote_with_url_def dep1_plain_def)

text \<open>
  C8, amended: read "set" as "set to a non-empty string" (\<^const>\<open>truthy\<close>). For every
  combination of field values whose \<^verbatim>\<open>sub_url\<close> is absent or empty, construction succeeds
  exactly when \<^verbatim>\<open>remote\<close> and \<^verbatim>\<open>url\<close> are not both non-empty; construction with a non-empty
  \<^verbatim>\<open>sub_url\<close> and no non-empty \<^verbatim>\<open>remote\<close> fails validation; construction with both
  \<^verbatim>\<open>remote\<close> and \<^verbatim>\<open>url\<close> non-empty fails validation.
\<close>

theorem Project_init_valid_iff:
  "(\<not> truthy (Project_sub_url p) \<longrightarrow>
      (Project_init p = Inr p \<longleftrightarrow> \<not> (truthy (Project_remote p) \<and> truthy (Project_url p))))
   \<and> (truthy (Project_sub_url p) \<and> \<not> truthy (Project_remote p) \<longrightarrow>
      (\<exists>msg. Project_init p = Inl (ValidationError msg)))
   \<and> (truthy (Project_remote p) \<and> truthy (Project_url p) \<longrightarrow>
      (\<exists>msg. Project_init p = Inl (ValidationError msg)))"
  by (simp add: Project_init_cases)

theorem Project_init_valid_iff_witness:
  "Project_init dep1_plain = Inr dep1_plain
   \<and> Project_init dep1_origin = Inr dep1_origin
   \<and> Project_init (ProjectSpec_url ''dep1'' ''../dep1'' None) = Inr (ProjectSpec_url ''dep1'' ''../dep1'' None)
   \<and> (\<exists>msg. Project_init dep1_sub_url_only = Inl (ValidationError msg))
   \<and> (\<exists>msg. Project_init dep1_remote_and_url = Inl (ValidationError msg))"
  using Project_init_valid_iff [of dep1_plain] Project_init_valid_iff [of dep1_origin]
    Project_init_valid_iff [of "ProjectSpec_url ''dep1'' ''../dep1'' None"]
    Project_init_valid_iff [of dep1_sub_url_only] Project_init_valid_iff [of dep1_remote_and_url]
  by (simp add: dep1_plain_def dep1_origin_def ProjectSpec_url_def dep1_sub_url_only_def
      dep1_remote_and_url_def)

text \<open>
  C10: validation treats an empty string like an absent value. A declaration with
  \<^verbatim>\<open>remote=""\<close> and any \<^verbatim>\<open>url\<close> (a non-empty one among them) is constructed, and so is one
  with \<^verbatim>\<open>sub_url=""\<close> and no \<^verbatim>\<open>remote\<close>; construction fails exactly when one of the three
  rules finds its fields non-empty.
\<close>

theorem Project_init_empty_string_as_absent:
  "Project_init \<lparr> Project_name = n, Project_remote = Some '''', Project_sub_url = None,
       Project_url = Some u, Project_revision = r, Project_path = pa \<rparr>
     = Inr \<lparr> Project_name = n, Project_remote = Some '''', Project_sub_url = None,
       Project_url = Some u, Project_revision = r, Project_path = pa \<rparr>
   \<and> Project_init \<lparr> Project_name = n, Project_remote = None, Project_sub_url = Some '''',
       Project_url = u', Project_revision = r, Project_path = pa \<rparr>
     = Inr \<lparr> Project_name = n, Project_remote = None, Project_sub_url = Some '''',
       Project_url = u', Project_revision = r, Project_path = pa \<rparr>
   \<and> ((\<exists>e. Project_init p = Inl e) \<longleftrightarrow>
        (truthy (Project_remote p) \<and> truthy (Project_url p))
        \<or> (truthy (Project_url p) \<and> truthy (Project_sub_url p))
        \<or> (truthy (Project_sub_url p) \<and> \<not> truthy (Project_remote p)))"
  by (simp add: Project_init_cases)

subsection \<open>Resolution of a declaration\<close>

lemma find_remote_None_iff:
  "find_remote n rs = None \<longleftrightarrow> (\<forall>x \<in> set rs. Some (Remote_name x) \<noteq> n)"
  by (induction rs) auto

lemma find_remote_first:
  "find_remote n rs = Some ra \<Longrightarrow>
     \<exists>pre post. rs = pre @ ra # post \<and> Some (Remote_name ra) = n
        \<and> (\<forall>x \<in> set pre. Some (Remote_name x) \<noteq> n)"
proof (induction rs)
  case Nil
  then show ?case by simp
next
  case (Cons r rs)
  show ?case
  proof (cases "Some (Remote_name r) = n")
    case True
    with Cons.prems have "ra = r" by simp
    with True have "r # rs = [] @ ra # rs \<and> Some (Remote_name ra) = n
        \<and> (\<forall>x \<in> set []. Some (Remote_name x) \<noteq> n)" by simp
    then show ?thesis by blast
  next
    case False
    with Cons.prems have "find_remote n rs = Some ra" by simp
    from Cons.IH [OF this] obtain pre post where
      "rs = pre @ ra # post" "Some (Remote_name ra) = n"
      "\<forall>x \<in> set pre. Some (Remote_name x) \<noteq> n" by blast
    with False have "r # rs = (r # pre) @ ra # post \<and> Some (Remote_name ra) = n
        \<and> (\<forall>x \<in> set (r # pre). Some (Remote_name x) \<noteq> n)" by simp
    then show ?thesis by blast
  qed
qed

text \<open>Resolution raises exactly when a remote is wanted and no alias has its name.\<close>

lemma from_project_fails_iff:
  "(\<exists>e. from_project d rs p = Inl e) \<longleftrightarrow>
     \<not> truthy (Project_url p)
     \<and> truthy (py_or (Project_remote p) (Defaults_remote d))
     \<and> find_remote (py_or (Project_remote p) (Defaults_remote d)) rs = None"
  by (auto simp: from_project_def Let_def split: option.splits)

lemma from_project_fields:
  assumes "from_project d rs p = Inr r"
  shows "Resolved_name r = Project_name p"
    and "Resolved_path r = py_or_str (Project_path p) (Project_name p)"
    and "Resolved_revision r = py_or (Project_revision p) (Defaults_revision d)"
    and "Resolved_manifest r = None"
  using assms by (auto simp: from_project_def Let_def split: option.splits if_splits)

lemma from_project_url_explicit:
  assumes "from_project d rs p = Inr r" "truthy (Project_url p)"
  shows "Resolved_url r = Project_url p"
  using assms by (auto simp: from_project_def Let_def split: option.splits if_splits)

lemma from_project_url_assembled:
  assumes "from_project d rs p = Inr r" "\<not> truthy (Project_url p)"
    "truthy (py_or (Project_remote p) (Defaults_remote d))"
  shows "\<exists>ra. find_remote (py_or (Project_remote p) (Defaults_remote d)) rs = Some ra
     \<and> Resolved_url r = Some (py_str (Remote_url_base ra) @ ''/''
           @ py_or_str (Project_sub_url p) (Project_name p))"
  using assms by (auto simp: from_project_def Let_def split: option.splits if_splits)

text \<open>
  C4, as stated, fails: a path that is set to the empty string is not the resolved path.
  The declaration \<^verbatim>\<open>Project(name="dep1", path="")\<close> is valid, its path is set, and it
  resolves to the path \<^verbatim>\<open>dep1\<close>, its name.
\<close>

theorem from_project_empty_path_gives_name:
  "Project_init dep1_empty_path = Inr dep1_empty_path
   \<and> Project_path dep1_empty_path = Some ''''
   \<and> (case from_project Defaults_default [] dep1_empty_path of
         Inl e \<Rightarrow> False | Inr r \<Rightarrow> Resolved_path r = ''dep1'')"
  by (simp add: dep1_empty_path_def dep1_plain_def Defaults_default_def from_project_def
      Project_init_cases py_or_def py_or_str_def)

text \<open>
  C4, amended: read "set" as "set to a non-empty string". Whenever resolution produces a
  resolved project: its path is the declaration's path if that is non-empty, else the
  name; its revision is the declaration's revision if that is non-empty, else the
  defaults' revision; and when the declaration's url is absent or empty and the effective
  remote (the declaration's remote if non-empty, else the defaults' remote) is non-empty,
  the url is the \<^verbatim>\<open>url_base\<close> of the first alias of that name, a slash, and the
  declaration's \<^verbatim>\<open>sub_url\<close> if non-empty, else its name, provided that alias has a
  \<^verbatim>\<open>url_base\<close>. For \<^verbatim>\<open>remote="origin"\<close>, no \<^verbatim>\<open>sub_url\<close>, \<^verbatim>\<open>name="dep1"\<close> and \<^verbatim>\<open>origin\<close> first
  in the list with \<^verbatim>\<open>url_base="https://example.com/base"\<close>, the url is
  \<^verbatim>\<open>https://example.com/base/dep1\<close>.
\<close>

theorem from_project_resolves:
  assumes "from_project d rs p = Inr r"
  shows "Resolved_path r =
           (if truthy (Project_path p) then the (Project_path p) else Project_name p)
    \<and> Resolved_revision r =
           (if truthy (Project_revision p) then Project_revision p else Defaults_revision d)
    \<and> (\<not> truthy (Project_url p)
          \<and> truthy (if truthy (Project_remote p) then Project_remote p else Defaults_remote d)
        \<longrightarrow> (\<exists>pre ra post. rs = pre @ ra # post
               \<and> Some (Remote_name ra) = (if truthy (Project_remote p) then Project_remote p else Defaults_remote d)
               \<and> (\<forall>x \<in> set pre. Some (Remote_name x) \<noteq> (if truthy (Project_remote p) then Project_remote p else Defaults_remote d))
               \<and> (\<forall>base. Remote_url_base ra = Some base \<longrightarrow>
                    Resolved_url r = Some (base @ ''/''
                      @ (if truthy (Project_sub_url p) then the (Project_sub_url p) else Project_name p)))))
    \<and> (\<exists>r'. from_project d' (origin # rs') (dep1_origin \<lparr> Project_revision := rv, Project_path := pa \<rparr>) = Inr r'
           \<and> Resolved_url r' = Some ''https://example.com/base/dep1'')"
proof -
  let ?eff = "if truthy (Project_remote p) then Project_remote p else Defaults_remote d"
  let ?sub = "if truthy (Project_sub_url p) then the (Project_sub_url p) else Project_name p"
  have eff: "py_or (Project_remote p) (Defaults_remote d) = ?eff"
    by (simp add: py_or_def)
  have p1: "Resolved_path r = (if truthy (Project_path p) then the (Project_path p) else Project_name p)"
    using from_project_fields(2) [OF assms] by (simp add: py_or_str_if)
  have p2: "Resolved_revision r =
           (if truthy (Project_revision p) then Project_revision p else Defaults_revision d)"
    using from_project_fields(3) [OF assms] by (simp add: py_or_def)
  have p3: "\<exists>pre ra post. rs = pre @ ra # post
               \<and> Some (Remote_name ra) = ?eff
               \<and> (\<forall>x \<in> set pre. Some (Remote_name x) \<noteq> ?eff)
               \<and> (\<forall>base. Remote_url_base ra = Some base \<longrightarrow>
                    Resolved_url r = Some (base @ ''/'' @ ?sub))"
    if h: "\<not> truthy (Project_url p)" "truthy ?eff"
  proof -
    from from_project_url_assembled [OF assms h(1)] h(2) eff obtain ra where
      ra: "find_remote ?eff rs = Some ra"
        "Resolved_url r = Some (py_str (Remote_url_base ra) @ ''/''
           @ py_or_str (Project_sub_url p) (Project_name p))" by auto
    from find_remote_first [OF ra(1)] obtain pre post where
      "rs = pre @ ra # post" "Some (Remote_name ra) = ?eff"
      "\<forall>x \<in> set pre. Some (Remote_name x) \<noteq> ?eff" by blast
    with ra(2) have "rs = pre @ ra # post
               \<and> Some (Remote_name ra) = ?eff
               \<and> (\<forall>x \<in> set pre. Some (Remote_name x) \<noteq> ?eff)
               \<and> (\<forall>base. Remote_url_base ra = Some base \<longrightarrow>
                    Resolved_url r = Some (base @ ''/'' @ ?sub))"
      by (simp add: py_or_str_if py_str_def)
    then show ?thesis by blast
  qed
  have p4: "\<exists>r'. from_project d' (origin # rs') (dep1_origin \<lparr> Project_revision := rv, Project_path := pa \<rparr>) = Inr r'
           \<and> Resolved_url r' = Some ''https://example.com/base/dep1''"
    by (simp add: from_project_def dep1_origin_def dep1_plain_def origin_def py_or_def
        py_or_str_def py_str_def)
  show ?thesis
  proof (intro conjI impI)
    show "Resolved_path r = (if truthy (Project_path p) then the (Project_path p) else Project_name p)"
      by (rule p1)
    show "Resolved_revision r =
           (if truthy (Project_revision p) then Project_revision p else Defaults_revision d)"
      by (rule p2)
    show "\<exists>r'. from_project d' (origin # rs') (dep1_origin \<lparr> Project_revision := rv, Project_path := pa \<rparr>) = Inr r'
           \<and> Resolved_url r' = Some ''https://example.com/base/dep1''"
      by (rule p4)
  next
    assume "\<not> truthy (Project_url p) \<and> truthy ?eff"
    then show "\<exists>pre ra post. rs = pre @ ra # post
               \<and> Some (Remote_name ra) = ?eff
               \<and> (\<forall>x \<in> set pre. Some (Remote_name x) \<noteq> ?eff)
               \<and> (\<forall>base. Remote_url_base ra = Some base \<longrightarrow>
                    Resolved_url r = Some (base @ ''/'' @ ?sub))"
      using p3 by simp
  qed
qed

theorem from_project_resolves_witness:
  "from_project origin_defaults [origin] dep1_plain
     = Inr (resolved ''dep1'' (Some ''https://example.com/base/dep1'') None)
   \<and> Resolved_path (resolved ''dep1'' (Some ''https://example.com/base/dep1'') None) = ''dep1''
   \<and> Resolved_revision (resolved ''dep1'' (Some ''https://example.com/base/dep1'') None) = None
   \<and> (\<exists>pre ra post. [origin] = pre @ ra # post
         \<and> Remote_name ra = ''origin''
         \<and> Remote_url_base ra = Some ''https://example.com/base''
         \<and> Resolved_url (resolved ''dep1'' (Some ''https://example.com/base/dep1'') None)
             = Some (''https://example.com/base'' @ ''/dep1''))"
proof -
  have h: "from_project origin_defaults [origin] dep1_plain
     = Inr (resolved ''dep1'' (Some ''https://example.com/base/dep1'') None)"
    by (simp add: from_project_def origin_defaults_def origin_def dep1_plain_def resolved_def
        py_or_def py_or_str_def py_str_def)
  from from_project_resolves [OF h, of Defaults_default "[]" None None]
  obtain pre ra post where
    ra: "[origin] = pre @ ra # post" "Remote_name ra = ''origin''"
      "\<forall>base. Remote_url_base ra = Some base \<longrightarrow>
         Resolved_url (resolved ''dep1'' (Some ''https://example.com/base/dep1'') None)
           = Some (base @ ''/'' @ ''dep1'')"
    by (auto simp: origin_defaults_def dep1_plain_def)
  from ra(1) have "pre = []" "ra = origin"
    by (simp_all add: Cons_eq_append_conv)
  then have base: "Remote_url_base ra = Some ''https://example.com/base''"
    by (simp add: origin_def)
  with ra(3) have "Resolved_url (resolved ''dep1'' (Some ''https://example.com/base/dep1'') None)
           = Some (''https://example.com/base'' @ ''/dep1'')" by simp
  with ra(1,2) base have "\<exists>pre ra post. [origin] = pre @ ra # post
         \<and> Remote_name ra = ''origin''
         \<and> Remote_url_base ra = Some ''https://example.com/base''
         \<and> Resolved_url (resolved ''dep1'' (Some ''https://example.com/base/dep1'') None)
             = Some (''https://example.com/base'' @ ''/dep1'')"
    by (intro exI [of _ pre] exI [of _ ra] exI [of _ post] conjI)
  moreover have "Resolved_path (resolved ''dep1'' (Some ''https://example.com/base/dep1'') None) = ''dep1''"
    "Resolved_revision (resolved ''dep1'' (Some ''https://example.com/base/dep1'') None) = None"
    by (simp_all add: resolved_def)
  ultimately show ?thesis using h by (intro conjI)
qed

text \<open>
  C5: the error does not carry the remote name when the remote comes from the defaults.
  With \<^verbatim>\<open>defaults.remote="origin"\<close>, no alias of that name and a declaration \<^verbatim>\<open>dep1\<close>
  without a remote of its own, resolution raises with the declaration's own remote in
  the message, which is \<^verbatim>\<open>None\<close>.
\<close>

theorem from_project_unknown_default_remote:
  "from_project origin_defaults [] dep1_plain
     = Inl (ValueError ''Unknown remote None for project dep1'')"
  by (simp add: from_project_def origin_defaults_def dep1_plain_def py_or_def py_or_str_def
      py_str_def)

section \<open>Properties of loading and saving\<close>

lemma bind_error_simps [simp]:
  "bind_error (Inl e) f = Inl e" "bind_error (Inr v) f = f v"
  by (simp_all add: bind_error_def)

lemma map_error_map:
  "(\<And>x. x \<in> set xs \<Longrightarrow> f (g x) = Inr x) \<Longrightarrow> map_error f (map g xs) = Inr xs"
  by (induction xs) simp_all

lemma parse_Remote_dict:
  "parse_model Remote_parse (Remote_dict r) = Inr r"
  by (cases "Remote_url_base r")
    (simp_all add: parse_model_def Remote_dict_def Remote_parse_def dict_entry_def
      parse_str_def parse_optional_str_def get_field_def)

lemma parse_Defaults_dict:
  "parse_model Defaults_parse (Defaults_dict d) = Inr d"
  by (cases "Defaults_remote d"; cases "Defaults_revision d")
    (simp_all add: parse_model_def Defaults_dict_def Defaults_parse_def dict_entry_def
      parse_optional_str_def)

lemma Project_parse_fields:
  "Project_parse
     ([(''name'', YStr (Project_name p))]
      @ dict_entry ''remote'' (Project_remote p)
      @ dict_entry ''sub-url'' (Project_sub_url p)
      @ dict_entry ''url'' (Project_url p)
      @ dict_entry ''revision'' (Project_revision p)
      @ dict_entry ''path'' (Project_path p))
   = Project_init p"
proof -
  let ?kvs = "[(''name'', YStr (Project_name p))]
      @ dict_entry ''remote'' (Project_remote p)
      @ dict_entry ''sub-url'' (Project_sub_url p)
      @ dict_entry ''url'' (Project_url p)
      @ dict_entry ''revision'' (Project_revision p)
      @ dict_entry ''path'' (Project_path p)"
  have name: "parse_str (map_of ?kvs ''name'') = Inr (Project_name p)"
    by (simp add: parse_str_def)
  have remote: "parse_optional_str (map_of ?kvs ''remote'') = Inr (Project_remote p)"
    by (cases "Project_remote p") (simp_all add: parse_optional_str_def dict_entry_def map_add_def split: option.splits)
  have sub_url: "parse_optional_str (get_field ?kvs ''sub-url'' ''sub_url'') = Inr (Project_sub_url p)"
    by (cases "Project_remote p"; cases "Project_sub_url p")
      (simp_all add: parse_optional_str_def dict_entry_def get_field_def map_add_def split: option.splits)
  have url: "parse_optional_str (map_of ?kvs ''url'') = Inr (Project_url p)"
    by (cases "Project_remote p"; cases "Project_sub_url p"; cases "Project_url p")
      (simp_all add: parse_optional_str_def dict_entry_def map_add_def split: option.splits)
  have revision: "parse_optional_str (map_of ?kvs ''revision'') = Inr (Project_revision p)"
    by (cases "Project_remote p"; cases "Project_sub_url p"; cases "Project_url p";
        cases "Project_revision p")
      (simp_all add: parse_optional_str_def dict_entry_def map_add_def split: option.splits)
  have path: "parse_optional_str (map_of ?kvs ''path'') = Inr (Project_path p)"
    by (cases "Project_remote p"; cases "Project_sub_url p"; cases "Project_url p";
        cases "Project_revision p"; cases "Project_path p")
      (simp_all add: parse_optional_str_def dict_entry_def map_add_def split: option.splits)
  have surj: "\<lparr> Project_name = Project_name p, Project_remote = Project_remote p,
          Project_sub_url = Project_sub_url p, Project_url = Project_url p,
          Project_revision = Project_revision p, Project_path = Project_path p \<rparr> = p"
    by (cases p) simp
  show ?thesis
    unfolding Project_parse_def name remote sub_url url revision path
    by (simp only: bind_error_simps surj)
qed

lemma parse_Project_dict:
  "parse_model Project_parse (Project_dict p) = Project_init p"
  unfolding parse_model_def Project_dict_def
  by (simp only: yaml.case Project_parse_fields)

lemma Manifest_parse_dict:
  assumes "Project_init (Manifest_main m) = Inr (Manifest_main m)"
    and "\<And>p. p \<in> set (Manifest_projects m) \<Longrightarrow> Project_init p = Inr p"
  shows "Manifest_init (Manifest_dict m) = Inr m"
proof -
  have remotes: "map_error (parse_model Remote_parse) (map Remote_dict (Manifest_remotes m))
      = Inr (Manifest_remotes m)"
    by (rule map_error_map) (rule parse_Remote_dict)
  have projects: "map_error (parse_model Project_parse) (map Project_dict (Manifest_projects m))
      = Inr (Manifest_projects m)"
    by (rule map_error_map) (simp add: parse_Project_dict assms(2))
  show ?thesis
    by (simp add: Manifest_init_def Manifest_dict_def Manifest_parse_def get_field_def
        parse_default_def parse_list_def parse_Project_dict parse_Defaults_dict
        remotes projects assms(1))
qed

text \<open>
  \<^verbatim>\<open>Manifest.load\<close> raises \<^verbatim>\<open>ManifestNotFoundError\<close> exactly for a missing file, and it
  has no \<^verbatim>\<open>ManifestError\<close> of its own: whatever the parser or the models raise passes
  through unchanged.
\<close>

lemma load_not_found:
  "fs path = None \<Longrightarrow> load yaml_load fs path = Inl (ManifestNotFoundError path)"
  by (simp add: load_def)

lemma Project_init_error:
  "Project_init p = Inl e \<Longrightarrow> \<exists>msg. e = ValidationError msg"
  by (auto simp: Project_init_cases split: if_splits)

lemma bind_error_Inl:
  "bind_error r f = Inl e \<Longrightarrow> r = Inl e \<or> (\<exists>v. r = Inr v \<and> f v = Inl e)"
  by (cases r) simp_all

lemma map_error_Inl:
  "map_error f xs = Inl e \<Longrightarrow> \<exists>x \<in> set xs. f x = Inl e"
  by (induction xs) (auto dest!: bind_error_Inl)

lemma parse_str_error:
  "parse_str v = Inl e \<Longrightarrow> \<exists>msg. e = ValidationError msg"
  by (auto simp: parse_str_def split: option.splits yaml.splits)

lemma parse_optional_str_error:
  "parse_optional_str v = Inl e \<Longrightarrow> \<exists>msg. e = ValidationError msg"
  by (auto simp: parse_optional_str_def split: option.splits yaml.splits)

lemma parse_model_error:
  assumes "parse_model parse v = Inl e" "\<And>kvs. parse kvs = Inl e \<Longrightarrow> \<exists>msg. e = ValidationError msg"
  shows "\<exists>msg. e = ValidationError msg"
  using assms by (auto simp: parse_model_def split: yaml.splits)

lemma parse_list_error:
  assumes "parse_list parse v = Inl e" "\<And>y. parse y = Inl e \<Longrightarrow> \<exists>msg. e = ValidationError msg"
  shows "\<exists>msg. e = ValidationError msg"
  using assms by (auto simp: parse_list_def split: yaml.splits dest!: map_error_Inl)

lemma parse_default_error:
  assumes "parse_default v0 parse v = Inl e" "\<And>y. parse y = Inl e \<Longrightarrow> \<exists>msg. e = ValidationError msg"
  shows "\<exists>msg. e = ValidationError msg"
  using assms by (auto simp: parse_default_def split: option.splits)

lemma Remote_parse_error:
  "Remote_parse kvs = Inl e \<Longrightarrow> \<exists>msg. e = ValidationError msg"
  unfolding Remote_parse_def
  by (auto dest!: bind_error_Inl dest: parse_str_error parse_optional_str_error)

lemma Defaults_parse_error:
  "Defaults_parse kvs = Inl e \<Longrightarrow> \<exists>msg. e = ValidationError msg"
  unfolding Defaults_parse_def
  by (auto dest!: bind_error_Inl dest: parse_optional_str_error)

lemma Project_parse_error:
  "Project_parse kvs = Inl e \<Longrightarrow> \<exists>msg. e = ValidationError msg"
  unfolding Project_parse_def
  by (auto dest!: bind_error_Inl dest: parse_str_error parse_optional_str_error Project_init_error)

lemma Manifest_parse_error:
  assumes "Manifest_parse kvs = Inl e"
  shows "\<exists>msg. e = ValidationError msg"
proof -
  have main: "\<exists>msg. e = ValidationError msg"
    if "parse_default main_default (parse_model Project_parse) v = Inl e" for v
    using that by (elim parse_default_error parse_model_error Project_parse_error)
  have defaults: "\<exists>msg. e = ValidationError msg"
    if "parse_default Defaults_default (parse_model Defaults_parse) v = Inl e" for v
    using that by (elim parse_default_error parse_model_error Defaults_parse_error)
  have remotes: "\<exists>msg. e = ValidationError msg"
    if "parse_default [] (parse_list (parse_model Remote_parse)) v = Inl e" for v
    using that by (elim parse_default_error parse_list_error parse_model_error Remote_parse_error)
  have projects: "\<exists>msg. e = ValidationError msg"
    if "parse_default [] (parse_list (parse_model Project_parse)) v = Inl e" for v
    using that by (elim parse_default_error parse_list_error parse_model_error Project_parse_error)
  from assms show ?thesis
    unfolding Manifest_parse_def
    by (auto dest!: bind_error_Inl dest: main defaults remotes projects)
qed

lemma Manifest_init_error:
  "Manifest_init v = Inl e \<Longrightarrow> \<exists>msg. e = TypeError msg \<or> e = ValidationError msg"
  by (cases v) (auto simp: Manifest_init_def dest: Manifest_parse_error)

lemma dict_get_error:
  "dict_get data key v = Inl e \<Longrightarrow> \<exists>msg. e = AttributeError msg"
  by (cases data) (auto simp: dict_get_def)

lemma load_error_cases:
  assumes "load yaml_load fs path = Inl e"
  shows "(fs path = None \<and> e = ManifestNotFoundError path)
    \<or> (\<exists>content. fs path = Some content \<and> yaml_load content = Inl e)
    \<or> (\<exists>msg. e = AttributeError msg \<or> e = TypeError msg \<or> e = ValidationError msg)"
proof (cases "fs path")
  case None
  with assms show ?thesis by (simp add: load_def)
next
  case (Some content)
  show ?thesis
  proof (cases "yaml_load content")
    case (Inl e')
    with assms Some show ?thesis by (simp add: load_def)
  next
    case (Inr data)
    with assms Some have "bind_error (dict_get data ''manifest'' (YDict [])) Manifest_init = Inl e"
      by (simp add: load_def)
    from bind_error_Inl [OF this] show ?thesis
      using dict_get_error Manifest_init_error by blast
  qed
qed

text \<open>Unless \<^verbatim>\<open>yaml.load\<close> raises one, no \<^verbatim>\<open>ManifestError\<close> comes out of \<^verbatim>\<open>Manifest.load\<close>.\<close>

lemma load_never_ManifestError:
  assumes "\<And>content. yaml_load content \<noteq> Inl (ManifestError p details)"
  shows "load yaml_load fs path \<noteq> Inl (ManifestError p details)"
  using load_error_cases [of yaml_load fs path "ManifestError p details"] assms by auto

text \<open>
  C6: a file that exists and holds a declaration with both \<^verbatim>\<open>remote\<close> and \<^verbatim>\<open>url\<close>
  makes \<^verbatim>\<open>Manifest.load\<close> raise the validation error of the model as it is, not a
  \<^verbatim>\<open>ManifestError\<close> carrying the path.
\<close>

theorem load_broken_manifest_raises_ValidationError:
  "load Inr broken_fs ''anyrepo.yaml''
     = Inl (ValidationError (quoted ''remote'' @ '' and '' @ quoted ''url'' @ '' are mutually exclusive''))"
  by (simp add: load_def broken_fs_def broken_document_def dict_get_def Manifest_init_def
      Manifest_parse_def get_field_def parse_default_def parse_list_def parse_model_def
      Project_parse_def parse_str_def parse_optional_str_def Project_init_cases)



section \<open>Properties of the iterators\<close>

subsection \<open>The first loop of ProjectIter\<close>

lemma from_spec_path:
  "from_spec j d rs spec refurl = Inr dep \<Longrightarrow> Resolved_path dep = dep_path spec"
  by (auto simp: from_spec_def dep_path_def split: sum.splits option.splits if_splits
      dest: from_project_fields(2))

lemma from_spec_name_revision:
  assumes "from_spec j d rs spec refurl = Inr dep"
  shows "Resolved_name dep = Project_name spec"
    and "Resolved_revision dep = py_or (Project_revision spec) (Defaults_revision d)"
  using assms
  by (auto simp: from_spec_def split: sum.splits option.splits if_splits
      dest: from_project_fields(1,3))

text \<open>A declaration whose path is on \<open>done\<close> is passed over: the loop goes on as if it were not there.\<close>

lemma project_loop_skip:
  assumes "from_spec (url_join w) d rs spec refurl = Inr dep" "Resolved_path dep \<in> set done"
  shows "project_loop w d rs refurl (spec # specs) done = project_loop w d rs refurl specs done"
  using assms by simp

text \<open>Every project yielded puts its path at the end of \<open>done\<close>, and nothing else does.\<close>

lemma project_loop_done:
  "project_loop w d rs refurl specs done = (ys, deps, done', err)
     \<Longrightarrow> done' = done @ map Resolved_path ys"
proof (induction specs arbitrary: "done" ys deps done' err)
  case Nil
  then show ?case by simp
next
  case (Cons spec specs)
  show ?case
  proof (cases "from_spec (url_join w) d rs spec refurl")
    case (Inl e)
    with Cons.prems show ?thesis by simp
  next
    case (Inr dep)
    show ?thesis
    proof (cases "Resolved_path dep \<in> set done")
      case True
      with Cons.prems Inr have "project_loop w d rs refurl specs done = (ys, deps, done', err)"
        by simp
      then show ?thesis by (rule Cons.IH)
    next
      case False
      let ?done1 = "done @ [Resolved_path dep]"
      obtain ys1 deps1 done2 err1 where
        rest: "project_loop w d rs refurl specs ?done1 = (ys1, deps1, done2, err1)"
        by (metis prod_cases4)
      from Cons.IH [OF rest] have "done2 = ?done1 @ map Resolved_path ys1" .
      with Cons.prems Inr False rest show ?thesis
        by (auto simp: Let_def split: sum.splits)
    qed
  qed
qed

lemma project_loop_new:
  "project_loop w d rs refurl specs done = (ys, deps, done', err)
     \<Longrightarrow> distinct done \<Longrightarrow> distinct done'"
proof (induction specs arbitrary: "done" ys deps done' err)
  case Nil
  then show ?case by simp
next
  case (Cons spec specs)
  show ?case
  proof (cases "from_spec (url_join w) d rs spec refurl")
    case (Inl e)
    with Cons.prems show ?thesis by simp
  next
    case (Inr dep)
    show ?thesis
    proof (cases "Resolved_path dep \<in> set done")
      case True
      with Cons.prems Inr have "project_loop w d rs refurl specs done = (ys, deps, done', err)"
        by simp
      then show ?thesis using Cons.prems(2) by (rule Cons.IH)
    next
      case False
      let ?done1 = "done @ [Resolved_path dep]"
      obtain ys1 deps1 done2 err1 where
        rest: "project_loop w d rs refurl specs ?done1 = (ys1, deps1, done2, err1)"
        by (metis prod_cases4)
      from False Cons.prems(2) have "distinct ?done1" by simp
      from Cons.IH [OF rest this] have "distinct done2" .
      with Cons.prems Inr False rest \<open>distinct ?done1\<close> show ?thesis
        by (auto simp: Let_def split: sum.splits)
    qed
  qed
qed

lemma project_loop_paths:
  "project_loop w d rs refurl specs done = (ys, deps, done', err)
     \<Longrightarrow> set (map Resolved_path ys) \<subseteq> dep_path ` set specs"
proof (induction specs arbitrary: "done" ys deps done' err)
  case Nil
  then show ?case by simp
next
  case (Cons spec specs)
  show ?case
  proof (cases "from_spec (url_join w) d rs spec refurl")
    case (Inl e)
    with Cons.prems show ?thesis by simp
  next
    case (Inr dep)
    note path = from_spec_path [OF Inr]
    show ?thesis
    proof (cases "Resolved_path dep \<in> set done")
      case True
      with Cons.prems Inr have "project_loop w d rs refurl specs done = (ys, deps, done', err)"
        by simp
      from Cons.IH [OF this] show ?thesis by auto
    next
      case False
      let ?done1 = "done @ [Resolved_path dep]"
      obtain ys1 deps1 done2 err1 where
        rest: "project_loop w d rs refurl specs ?done1 = (ys1, deps1, done2, err1)"
        by (metis prod_cases4)
      from Cons.IH [OF rest] have "set (map Resolved_path ys1) \<subseteq> dep_path ` set specs" .
      with Cons.prems Inr False rest path show ?thesis
        by (auto simp: Let_def split: sum.splits) blast
    qed
  qed
qed
lemma project_loop_children:
  "project_loop w d rs refurl specs done = (ys, deps, done', err)
     \<Longrightarrow> deps = project_children w ys"
proof (induction specs arbitrary: "done" ys deps done' err)
  case Nil
  then show ?case by (simp add: project_children_def)
next
  case (Cons spec specs)
  show ?case
  proof (cases "from_spec (url_join w) d rs spec refurl")
    case (Inl e)
    with Cons.prems show ?thesis by (simp add: project_children_def)
  next
    case (Inr dep)
    show ?thesis
    proof (cases "Resolved_path dep \<in> set done")
      case True
      with Cons.prems Inr have "project_loop w d rs refurl specs done = (ys, deps, done', err)"
        by simp
      then show ?thesis by (rule Cons.IH)
    next
      case False
      let ?done1 = "done @ [Resolved_path dep]"
      obtain ys1 deps1 done2 err1 where
        rest: "project_loop w d rs refurl specs ?done1 = (ys1, deps1, done2, err1)"
        by (metis prod_cases4)
      from Cons.IH [OF rest] have "deps1 = project_children w ys1" .
      with Cons.prems Inr False rest show ?thesis
        by (auto simp: Let_def project_children_def manifest_of_def manifest_file_def
            split: sum.splits)
    qed
  qed
qed

lemma ManifestSpec_load_known:
  assumes "ManifestSpec_load w p dflt = Inr m" "dflt = None \<or> dflt = Some MANIFEST_DEFAULT"
  shows "known w m"
proof (cases "map_of (files w) p")
  case None
  with assms have "m = MANIFEST_DEFAULT"
    by (auto simp: ManifestSpec_load_def)
  then show ?thesis by (simp add: known_def MANIFEST_DEFAULT_def)
next
  case (Some loaded)
  with assms have "(p, Inr m) \<in> set (files w)"
    by (auto simp: ManifestSpec_load_def dest: map_of_SomeD)
  then show ?thesis
    by (force simp: known_def declared_paths_def)
qed

lemma project_children_known:
  "(pp, m) \<in> set (project_children w ys) \<Longrightarrow> known w m"
  by (auto simp: project_children_def manifest_of_def split: sum.splits if_splits
      intro: ManifestSpec_load_known)

lemma project_children_Nil:
  "project_children w [] = []"
  by (simp add: project_children_def)

lemma project_loop_ok:
  assumes "project_loop w (Manifest_defaults m) (Manifest_remotes m) refurl (Manifest_projects m) done
             = (ys, deps, done', err)"
    and "known w m"
  shows "project_run_ok w done (ys, done', err)"
proof -
  from project_loop_paths [OF assms(1)] assms(2)
  have "set (map Resolved_path ys) \<subseteq> set (declared_paths w)"
    by (auto simp: known_def)
  with project_loop_done [OF assms(1)] project_loop_new [OF assms(1)]
  show ?thesis by (simp add: project_run_ok_def)
qed

lemma project_run_ok_append:
  assumes "project_run_ok w done (ys1, done1, err1)" "project_run_ok w done1 (ys2, done2, err2)"
  shows "project_run_ok w done (ys1 @ ys2, done2, err2)"
proof -
  from assms(1) have a1: "done1 = done @ map Resolved_path ys1"
    and a3: "distinct done \<longrightarrow> distinct done1"
    and a5: "set (map Resolved_path ys1) \<subseteq> set (declared_paths w)"
    unfolding project_run_ok_def prod.case by blast+
  from assms(2) have a2: "done2 = done1 @ map Resolved_path ys2"
    and a4: "distinct done1 \<longrightarrow> distinct done2"
    and a6: "set (map Resolved_path ys2) \<subseteq> set (declared_paths w)"
    unfolding project_run_ok_def prod.case by blast+
  from a1 a2 have "done2 = done @ map Resolved_path (ys1 @ ys2)" by simp
  moreover from a3 a4 have "distinct done \<longrightarrow> distinct done2" by blast
  moreover from a5 a6 have "set (map Resolved_path (ys1 @ ys2)) \<subseteq> set (declared_paths w)"
    by simp
  ultimately show ?thesis
    unfolding project_run_ok_def prod.case by blast
qed

lemma project_run_ok_Nil:
  "project_run_ok w done ([], done, err)"
  by (simp add: project_run_ok_def)

text \<open>The second loop keeps the invariant if each recursive call does.\<close>

lemma project_iter_deps_ok_step:
  assumes iter: "\<And>pp m done0 r. known w m \<Longrightarrow> project_iter fuel w ru pp m done0 = Some r
                   \<Longrightarrow> project_run_ok w done0 r"
  shows "(\<And>pp m. (pp, m) \<in> set deps \<Longrightarrow> known w m)
     \<Longrightarrow> project_iter_deps fuel w ru deps done = Some r \<Longrightarrow> project_run_ok w done r"
proof (induction deps arbitrary: "done" r)
  case Nil
  then show ?case by (auto simp: project_run_ok_Nil)
next
  case (Cons dep deps)
  obtain pp m where dep: "dep = (pp, m)" by (cases dep)
  from Cons.prems(1) [of pp m] dep have km: "known w m" by simp
  from Cons.prems(2) dep obtain ys1 done1 err1 where
    first: "project_iter fuel w ru pp m done = Some (ys1, done1, err1)"
    by (auto split: option.splits)
  from iter [OF km first] have ok1: "project_run_ok w done (ys1, done1, err1)" .
  show ?case
  proof (cases err1)
    case (Some e)
    with Cons.prems(2) dep first ok1 show ?thesis by simp
  next
    case None
    with Cons.prems(2) dep first obtain ys2 done2 err2 where
      rest: "project_iter_deps fuel w ru deps done1 = Some (ys2, done2, err2)"
      and r: "r = (ys1 @ ys2, done2, err2)"
      by (auto split: option.splits)
    have "project_run_ok w done1 (ys2, done2, err2)"
    proof (rule Cons.IH [OF _ rest])
      fix pp' m'
      assume "(pp', m') \<in> set deps"
      then show "known w m'" using Cons.prems(1) [of pp' m'] by simp
    qed
    with ok1 r show ?thesis by (simp add: project_run_ok_append)
  qed
qed

lemma project_iter_ok:
  "known w m \<Longrightarrow> project_iter fuel w ru pp m done = Some r \<Longrightarrow> project_run_ok w done r"
proof (induction fuel arbitrary: pp m "done" r)
  case 0
  then show ?case by simp
next
  case (Suc fuel)
  show ?case
  proof (cases "ru \<and> \<not> git_is_cloned w pp")
    case True
    with Suc.prems(2) show ?thesis by (auto simp: project_run_ok_Nil)
  next
    case False
    let ?refurl = "if ru then git_get_url w pp else None"
    obtain ys1 deps done1 err1 where
      loop: "project_loop w (Manifest_defaults m) (Manifest_remotes m) ?refurl
               (Manifest_projects m) done = (ys1, deps, done1, err1)"
      by (metis prod_cases4)
    from project_loop_ok [OF loop Suc.prems(1)]
    have ok1: "project_run_ok w done (ys1, done1, err1)" .
    show ?thesis
    proof (cases err1)
      case (Some e)
      with Suc.prems(2) False loop ok1 show ?thesis by (simp add: Let_def)
    next
      case None
      with Suc.prems(2) False loop obtain ys2 done2 err2 where
        rest: "project_iter_deps fuel w ru deps done1 = Some (ys2, done2, err2)"
        and r: "r = (ys1 @ ys2, done2, err2)"
        by (auto simp: Let_def split: option.splits)
      have "\<And>pp m. (pp, m) \<in> set deps \<Longrightarrow> known w m"
        using project_loop_children [OF loop] project_children_known by blast
      from project_iter_deps_ok_step [OF Suc.IH this rest]
      have "project_run_ok w done1 (ys2, done2, err2)" by simp
      with ok1 r show ?thesis by (simp add: project_run_ok_append)
    qed
  qed
qed

lemma project_iter_deps_ok:
  "(\<And>pp m. (pp, m) \<in> set deps \<Longrightarrow> known w m)
     \<Longrightarrow> project_iter_deps fuel w ru deps done = Some r \<Longrightarrow> project_run_ok w done r"
  by (rule project_iter_deps_ok_step [OF project_iter_ok])
lemma project_loop_fresh:
  "project_loop w d rs refurl specs done = (ys, deps, done', err)
     \<Longrightarrow> y \<in> set ys \<Longrightarrow> Resolved_path y \<notin> set done"
proof (induction specs arbitrary: "done" ys deps done' err)
  case Nil
  then show ?case by simp
next
  case (Cons spec specs)
  show ?case
  proof (cases "from_spec (url_join w) d rs spec refurl")
    case (Inl e)
    with Cons.prems show ?thesis by simp
  next
    case (Inr dep)
    show ?thesis
    proof (cases "Resolved_path dep \<in> set done")
      case True
      with Cons.prems Inr have "project_loop w d rs refurl specs done = (ys, deps, done', err)"
        by simp
      then show ?thesis using Cons.prems(2) by (rule Cons.IH)
    next
      case False
      let ?done1 = "done @ [Resolved_path dep]"
      obtain ys1 deps1 done2 err1 where
        rest: "project_loop w d rs refurl specs ?done1 = (ys1, deps1, done2, err1)"
        by (metis prod_cases4)
      have "Resolved_path y \<notin> set ?done1" if "y \<in> set ys1"
        using Cons.IH [OF rest that] .
      with Cons.prems Inr False rest show ?thesis
        by (auto simp: Let_def split: sum.splits)
    qed
  qed
qed

subsection \<open>ProjectIter returns\<close>

text \<open>
  Each recursive call is for a path that was declared and was not on \<open>done\<close>, so the
  number of declared paths not on \<open>done\<close> bounds the depth of the recursion.
\<close>

lemma card_Diff_done_mono:
  "set done \<subseteq> set done' \<Longrightarrow> card (set (declared_paths w) - set done') \<le> card (set (declared_paths w) - set done)"
  by (rule card_mono) auto

lemma card_Diff_done_less:
  assumes "set done \<subseteq> set done'" "p \<in> set (declared_paths w)" "p \<notin> set done" "p \<in> set done'"
  shows "card (set (declared_paths w) - set done') < card (set (declared_paths w) - set done)"
proof (rule psubset_card_mono)
  show "finite (set (declared_paths w) - set done)" by simp
  from assms show "set (declared_paths w) - set done' \<subset> set (declared_paths w) - set done"
    by auto
qed

lemma project_iter_deps_returns_step:
  assumes iter: "\<And>pp m done0. known w m \<Longrightarrow> card (set (declared_paths w) - set done0) < fuel
                   \<Longrightarrow> \<exists>r. project_iter fuel w ru pp m done0 = Some r"
  shows "(\<And>pp m. (pp, m) \<in> set deps \<Longrightarrow> known w m)
     \<Longrightarrow> deps = [] \<or> card (set (declared_paths w) - set done) < fuel
     \<Longrightarrow> \<exists>r. project_iter_deps fuel w ru deps done = Some r"
proof (induction deps arbitrary: "done")
  case Nil
  then show ?case by simp
next
  case (Cons dep deps)
  obtain pp m where dep: "dep = (pp, m)" by (cases dep)
  from Cons.prems(1) [of pp m] dep have km: "known w m" by simp
  from Cons.prems(2) have small: "card (set (declared_paths w) - set done) < fuel" by simp
  from iter [OF km small] obtain ys1 done1 err1 where
    first: "project_iter fuel w ru pp m done = Some (ys1, done1, err1)"
    by (metis prod_cases3)
  from project_iter_ok [OF km first] have "set done \<subseteq> set done1"
    by (auto simp: project_run_ok_def)
  from card_Diff_done_mono [OF this, of w] small
  have small1: "card (set (declared_paths w) - set done1) < fuel" by simp
  have "\<exists>r. project_iter_deps fuel w ru deps done1 = Some r"
  proof (rule Cons.IH)
    fix pp' m'
    assume "(pp', m') \<in> set deps"
    then show "known w m'" using Cons.prems(1) [of pp' m'] by simp
  next
    from small1 show "deps = [] \<or> card (set (declared_paths w) - set done1) < fuel" by simp
  qed
  then obtain ys2 done2 err2 where
    "project_iter_deps fuel w ru deps done1 = Some (ys2, done2, err2)"
    by (metis prod_cases3)
  with first dep show ?case by (cases err1) (simp_all del: project_iter.simps)
qed

lemma project_iter_returns:
  "known w m \<Longrightarrow> card (set (declared_paths w) - set done) < fuel
     \<Longrightarrow> \<exists>r. project_iter fuel w ru pp m done = Some r"
proof (induction fuel arbitrary: pp m "done")
  case 0
  then show ?case by simp
next
  case (Suc fuel)
  show ?case
  proof (cases "ru \<and> \<not> git_is_cloned w pp")
    case True
    then show ?thesis by simp
  next
    case False
    let ?refurl = "if ru then git_get_url w pp else None"
    obtain ys1 deps done1 err1 where
      loop: "project_loop w (Manifest_defaults m) (Manifest_remotes m) ?refurl
               (Manifest_projects m) done = (ys1, deps, done1, err1)"
      by (metis prod_cases4)
    show ?thesis
    proof (cases err1)
      case (Some e)
      with False loop show ?thesis by (simp add: Let_def)
    next
      case None
      have known_deps: "\<And>pp m. (pp, m) \<in> set deps \<Longrightarrow> known w m"
        using project_loop_children [OF loop] project_children_known by blast
      from project_loop_ok [OF loop Suc.prems(1)]
      have done1: "done1 = done @ map Resolved_path ys1"
        and declared: "set (map Resolved_path ys1) \<subseteq> set (declared_paths w)"
        by (simp_all add: project_run_ok_def)
      have "deps = [] \<or> card (set (declared_paths w) - set done1) < fuel"
      proof (cases ys1)
        case Nil
        with project_loop_children [OF loop] show ?thesis
          by (simp add: project_children_Nil)
      next
        case (Cons y ys)
        then have y: "y \<in> set ys1" by simp
        have "card (set (declared_paths w) - set done1) < card (set (declared_paths w) - set done)"
        proof (rule card_Diff_done_less)
          from done1 show "set done \<subseteq> set done1" by auto
          from declared y show "Resolved_path y \<in> set (declared_paths w)" by auto
          from project_loop_fresh [OF loop y] show "Resolved_path y \<notin> set done" .
          from done1 y show "Resolved_path y \<in> set done1" by auto
        qed
        with Suc.prems(2) show ?thesis by simp
      qed
      then have "\<exists>r. project_iter_deps fuel w ru deps done1 = Some r"
        using known_deps by (intro project_iter_deps_returns_step Suc.IH)
      then obtain ys2 done2 err2 where
        "project_iter_deps fuel w ru deps done1 = Some (ys2, done2, err2)"
        by (metis prod_cases3)
      with False loop None show ?thesis by (simp add: Let_def)
    qed
  qed
qed

text \<open>More fuel does not change a result.\<close>

lemma project_iter_deps_more_fuel_step:
  assumes iter: "\<And>pp m done0 r. project_iter fuel w ru pp m done0 = Some r
                   \<Longrightarrow> project_iter (Suc fuel) w ru pp m done0 = Some r"
  shows "project_iter_deps fuel w ru deps done = Some r
     \<Longrightarrow> project_iter_deps (Suc fuel) w ru deps done = Some r"
proof (induction deps arbitrary: "done" r)
  case Nil
  then show ?case by simp
next
  case (Cons dep deps)
  obtain pp m where dep: "dep = (pp, m)" by (cases dep)
  from Cons.prems dep obtain ys1 done1 err1 where
    first: "project_iter fuel w ru pp m done = Some (ys1, done1, err1)"
    by (auto split: option.splits)
  note first' = iter [OF first]
  show ?case
  proof (cases err1)
    case (Some e)
    with Cons.prems dep first first' show ?thesis by (auto simp del: project_iter.simps)
  next
    case None
    with Cons.prems dep first obtain r2 where
      rest: "project_iter_deps fuel w ru deps done1 = Some r2"
      by (auto split: option.splits)
    from Cons.IH [OF rest] Cons.prems dep first first' None rest show ?thesis
      by (auto simp del: project_iter.simps)
  qed
qed

lemma project_iter_Suc_fuel:
  "project_iter fuel w ru pp m done = Some r \<Longrightarrow> project_iter (Suc fuel) w ru pp m done = Some r"
proof (induction fuel arbitrary: pp m "done" r)
  case 0
  then show ?case by simp
next
  case (Suc fuel)
  show ?case
  proof (cases "ru \<and> \<not> git_is_cloned w pp")
    case True
    with Suc.prems show ?thesis by simp
  next
    case False
    let ?refurl = "if ru then git_get_url w pp else None"
    obtain ys1 deps done1 err1 where
      loop: "project_loop w (Manifest_defaults m) (Manifest_remotes m) ?refurl
               (Manifest_projects m) done = (ys1, deps, done1, err1)"
      by (metis prod_cases4)
    show ?thesis
    proof (cases err1)
      case (Some e)
      with Suc.prems False loop show ?thesis by (auto simp: Let_def)
    next
      case None
      with Suc.prems False loop obtain r2 where
        rest: "project_iter_deps fuel w ru deps done1 = Some r2"
        by (auto simp: Let_def split: option.splits)
      have "project_iter_deps (Suc fuel) w ru deps done1 = Some r2"
        using rest by (intro project_iter_deps_more_fuel_step Suc.IH)
      with Suc.prems False loop None rest show ?thesis
        by (auto simp: Let_def)
    qed
  qed
qed

lemma project_iter_more_fuel:
  "project_iter fuel w ru pp m done = Some r \<Longrightarrow> project_iter (fuel + k) w ru pp m done = Some r"
  by (induction k) (simp_all add: project_iter_Suc_fuel del: project_iter.simps)

subsection \<open>The first loop of ManifestIter\<close>

lemma first_reached_set:
  "set (first_reached ps done) = set ps - set done"
  by (induction ps arbitrary: "done") auto

lemma first_reached_distinct:
  "distinct (first_reached ps done)"
  by (induction ps arbitrary: "done") (auto simp: first_reached_set)

lemma first_reached_done_distinct:
  "distinct done \<Longrightarrow> distinct (done @ first_reached ps done)"
  by (auto simp: first_reached_distinct first_reached_set)

lemma manifest_loop_eq:
  "manifest_loop w specs done =
     (map (manifest_entry w)
        (filter (\<lambda>p. path_exists w (manifest_file w p)) (first_reached (map dep_path specs) done)),
      done @ first_reached (map dep_path specs) done)"
proof (induction specs arbitrary: "done")
  case Nil
  show ?case by simp
next
  case (Cons spec specs)
  show ?case
  proof (cases "dep_path spec \<in> set done")
    case True
    with Cons.IH [of "done"] show ?thesis by simp
  next
    case False
    with Cons.IH [of "done @ [dep_path spec]"] show ?thesis
      by (simp add: Let_def manifest_entry_def manifest_file_def)
  qed
qed

text \<open>A declaration whose path is on \<open>done\<close> is passed over by the loop.\<close>

lemma manifest_loop_skip:
  "dep_path dep_project \<in> set done
     \<Longrightarrow> manifest_loop w (dep_project # specs) done = manifest_loop w specs done"
  by simp

text \<open>While nothing raises, the first loop of \<^verbatim>\<open>ProjectIter\<close> yields for the same paths.\<close>

lemma project_loop_first_reached:
  "project_loop w d rs refurl specs done = (ys, deps, done', None)
     \<Longrightarrow> map Resolved_path ys = first_reached (map dep_path specs) done"
proof (induction specs arbitrary: "done" ys deps done')
  case Nil
  then show ?case by simp
next
  case (Cons spec specs)
  show ?case
  proof (cases "from_spec (url_join w) d rs spec refurl")
    case (Inl e)
    with Cons.prems show ?thesis by simp
  next
    case (Inr dep)
    note path = from_spec_path [OF Inr]
    show ?thesis
    proof (cases "Resolved_path dep \<in> set done")
      case True
      with Cons.prems Inr have "project_loop w d rs refurl specs done = (ys, deps, done', None)"
        by simp
      from Cons.IH [OF this] True path show ?thesis by simp
    next
      case False
      let ?done1 = "done @ [Resolved_path dep]"
      obtain ys1 deps1 done2 err1 where
        rest: "project_loop w d rs refurl specs ?done1 = (ys1, deps1, done2, err1)"
        by (metis prod_cases4)
      with Cons.prems Inr False have "err1 = None"
        by (auto simp: Let_def split: sum.splits)
      with rest Cons.IH have "map Resolved_path ys1 = first_reached (map dep_path specs) ?done1"
        by simp
      with Cons.prems Inr False rest path show ?thesis
        by (auto simp: Let_def split: sum.splits)
    qed
  qed
qed
subsection \<open>The invariant of ManifestIter\<close>

lemma manifest_run_okI:
  assumes "done' = done0 @ ps" "set ps \<subseteq> set (declared_paths w)"
    "distinct done0 \<Longrightarrow> distinct done'"
    "map located_path ys = map (manifest_file w) qs"
    "set qs \<subseteq> set ds \<union> set ps"
    "distinct done0 \<Longrightarrow> distinct ds \<Longrightarrow> set ds \<subseteq> set done0 \<Longrightarrow> distinct qs"
  shows "manifest_run_ok w ds done0 (ys, done', err)"
  unfolding manifest_run_ok_def prod.case
proof (rule exI [of _ ps], rule exI [of _ qs], intro conjI impI)
  show "done' = done0 @ ps" by (rule assms(1))
  show "set ps \<subseteq> set (declared_paths w)" by (rule assms(2))
  show "distinct done'" if "distinct done0" using that by (rule assms(3))
  show "map located_path ys = map (manifest_file w) qs" by (rule assms(4))
  show "set qs \<subseteq> set ds \<union> set ps" by (rule assms(5))
  show "distinct qs" if "distinct done0 \<and> distinct ds \<and> set ds \<subseteq> set done0"
    using that assms(6) by simp
qed

lemma manifest_iter_okI:
  assumes "done' = done0 @ ps" "set ps \<subseteq> set (declared_paths w)"
    "distinct done0 \<Longrightarrow> distinct done'"
    "ys = [] \<and> qs = [] \<or> map located_path ys = mp # map (manifest_file w) qs"
    "set qs \<subseteq> set ps"
    "distinct done0 \<Longrightarrow> distinct qs"
  shows "manifest_iter_ok w mp done0 (ys, done', err)"
  unfolding manifest_iter_ok_def prod.case
proof (rule exI [of _ ps], rule exI [of _ qs], intro conjI impI)
  show "done' = done0 @ ps" by (rule assms(1))
  show "set ps \<subseteq> set (declared_paths w)" by (rule assms(2))
  show "distinct done'" if "distinct done0" using that by (rule assms(3))
  show "ys = [] \<and> qs = [] \<or> map located_path ys = mp # map (manifest_file w) qs"
    by (rule assms(4))
  show "set qs \<subseteq> set ps" by (rule assms(5))
  show "distinct qs" if "distinct done0" using that by (rule assms(6))
qed

lemma manifest_iter_deps_ok_step:
  assumes iter: "\<And>pp mp done0 r. manifest_iter fuel w pp mp done0 = Some r
                   \<Longrightarrow> manifest_iter_ok w mp done0 r"
  shows "manifest_iter_deps fuel w (map (manifest_entry w) ds) done = Some r
     \<Longrightarrow> manifest_run_ok w ds done r"
proof (induction ds arbitrary: "done" r)
  case Nil
  then have "r = ([], done, None)" by simp
  moreover have "manifest_run_ok w [] done ([], done, None)"
    by (rule manifest_run_okI [where ps = "[]" and qs = "[]"]) simp_all
  ultimately show ?case by simp
next
  case (Cons d ds)
  let ?pp = "path_div (workspace_path w) d"
  let ?mp = "manifest_file w d"
  have entry: "manifest_entry w d = (?pp, ?mp)" by (simp add: manifest_entry_def)
  from Cons.prems obtain ys1 done1 err1 where
    first: "manifest_iter fuel w ?pp ?mp done = Some (ys1, done1, err1)"
    by (auto simp: entry split: option.splits)
  from iter [OF first] obtain ps1 qs1 where
    done1: "done1 = done @ ps1"
    and ps1: "set ps1 \<subseteq> set (declared_paths w)"
    and dist1: "distinct done \<longrightarrow> distinct done1"
    and ys1: "ys1 = [] \<and> qs1 = [] \<or> map located_path ys1 = ?mp # map (manifest_file w) qs1"
    and qs1: "set qs1 \<subseteq> set ps1"
    and dqs1: "distinct done \<longrightarrow> distinct qs1"
    unfolding manifest_iter_ok_def prod.case by (elim exE conjE) (rule that, assumption+)
  define q1 where "q1 = (if ys1 = [] then [] else d # qs1)"
  from ys1 have ys1_q1: "map located_path ys1 = map (manifest_file w) q1"
    by (auto simp: q1_def)
  have q1_sub: "set q1 \<subseteq> set (d # ds) \<union> set ps1"
    using qs1 by (auto simp: q1_def)
  have q1_dist: "distinct q1"
    if "distinct done" "set (d # ds) \<subseteq> set done"
    using that dist1 done1 qs1 dqs1 by (auto simp: q1_def)
  show ?case
  proof (cases err1)
    case (Some e)
    with Cons.prems first have r: "r = (ys1, done1, Some e)"
      by (auto simp: entry)
    have "manifest_run_ok w (d # ds) done (ys1, done1, Some e)"
      using done1 ps1 dist1 ys1_q1 q1_sub q1_dist
      by (intro manifest_run_okI [where ps = ps1 and qs = q1]) blast+
    with r show ?thesis by simp
  next
    case None
    with Cons.prems first obtain ys2 done2 err2 where
      rest: "manifest_iter_deps fuel w (map (manifest_entry w) ds) done1 = Some (ys2, done2, err2)"
      and r: "r = (ys1 @ ys2, done2, err2)"
      by (auto simp: entry split: option.splits)
    from Cons.IH [OF rest] obtain ps2 qs2 where
      done2: "done2 = done1 @ ps2"
      and ps2: "set ps2 \<subseteq> set (declared_paths w)"
      and dist2: "distinct done1 \<longrightarrow> distinct done2"
      and ys2: "map located_path ys2 = map (manifest_file w) qs2"
      and qs2: "set qs2 \<subseteq> set ds \<union> set ps2"
      and dqs2: "distinct done1 \<and> distinct ds \<and> set ds \<subseteq> set done1 \<longrightarrow> distinct qs2"
      unfolding manifest_run_ok_def prod.case by (elim exE conjE) (rule that, assumption+)
    have "manifest_run_ok w (d # ds) done (ys1 @ ys2, done2, err2)"
    proof (rule manifest_run_okI [where ps = "ps1 @ ps2" and qs = "q1 @ qs2"])
      from done1 done2 show "done2 = done @ ps1 @ ps2" by simp
      from ps1 ps2 show "set (ps1 @ ps2) \<subseteq> set (declared_paths w)" by simp
      from dist1 dist2 show "distinct done \<Longrightarrow> distinct done2" by blast
      from ys1_q1 ys2 show "map located_path (ys1 @ ys2) = map (manifest_file w) (q1 @ qs2)"
        by simp
      from q1_sub qs2 show "set (q1 @ qs2) \<subseteq> set (d # ds) \<union> set (ps1 @ ps2)" by auto
    next
      assume a: "distinct done" "distinct (d # ds)" "set (d # ds) \<subseteq> set done"
      from a(1) dist1 have d1: "distinct done1" by blast
      with dist2 have d2: "distinct done2" by blast
      from a(2,3) done1 d1 dqs2 have "distinct qs2" by auto
      moreover from a(1,3) have "distinct q1" by (rule q1_dist)
      moreover have "set q1 \<inter> set qs2 = {}"
      proof -
        from d2 done1 done2 have fresh: "set done \<inter> set ps1 = {}" "set done \<inter> set ps2 = {}"
          "set ps1 \<inter> set ps2 = {}" by auto
        have q1: "set q1 \<subseteq> insert d (set ps1)" using qs1 by (auto simp: q1_def)
        from a(2,3) have "d \<notin> set ds" "d \<in> set done" "set ds \<subseteq> set done" by auto
        with qs2 fresh q1 show ?thesis by blast
      qed
      ultimately show "distinct (q1 @ qs2)" by simp
    qed
    with r show ?thesis by simp
  qed
qed

lemma manifest_iter_ok:
  "manifest_iter fuel w pp mp done = Some r \<Longrightarrow> manifest_iter_ok w mp done r"
proof (induction fuel arbitrary: pp mp "done" r)
  case 0
  then show ?case by simp
next
  case (Suc fuel)
  show ?case
  proof (cases "ManifestSpec_load w mp None")
    case (Inl e)
    with Suc.prems have "r = ([], done, Some e)" by simp
    moreover have "manifest_iter_ok w mp done ([], done, Some e)"
      by (rule manifest_iter_okI [where ps = "[]" and qs = "[]"]) simp_all
    ultimately show ?thesis by simp
  next
    case (Inr m)
    let ?fr = "first_reached (map dep_path (Manifest_projects m)) done"
    let ?ds = "filter (\<lambda>p. path_exists w (manifest_file w p)) ?fr"
    let ?done1 = "done @ ?fr"
    from ManifestSpec_load_known [OF Inr] have "known w m" by simp
    then have fr: "set ?fr \<subseteq> set (declared_paths w)"
      by (auto simp: known_def first_reached_set)
    from Suc.prems Inr obtain ys2 done2 err2 where
      rest: "manifest_iter_deps fuel w (map (manifest_entry w) ?ds) ?done1 = Some (ys2, done2, err2)"
      and r: "r = (Manifest_from_spec m mp # ys2, done2, err2)"
      by (auto simp: Let_def manifest_loop_eq dependencies_def Manifest_from_spec_def
          split: option.splits)
    have "manifest_run_ok w ?ds ?done1 (ys2, done2, err2)"
      using rest by (intro manifest_iter_deps_ok_step Suc.IH)
    then obtain ps2 qs2 where
      done2: "done2 = ?done1 @ ps2"
      and ps2: "set ps2 \<subseteq> set (declared_paths w)"
      and dist2: "distinct ?done1 \<longrightarrow> distinct done2"
      and ys2: "map located_path ys2 = map (manifest_file w) qs2"
      and qs2: "set qs2 \<subseteq> set ?ds \<union> set ps2"
      and dqs2: "distinct ?done1 \<and> distinct ?ds \<and> set ?ds \<subseteq> set ?done1 \<longrightarrow> distinct qs2"
      unfolding manifest_run_ok_def prod.case by (elim exE conjE) (rule that, assumption+)
    have "manifest_iter_ok w mp done (Manifest_from_spec m mp # ys2, done2, err2)"
    proof (rule manifest_iter_okI [where ps = "?fr @ ps2" and qs = qs2])
      from done2 show "done2 = done @ ?fr @ ps2" by simp
      from fr ps2 show "set (?fr @ ps2) \<subseteq> set (declared_paths w)" by simp
      from dist2 show "distinct done \<Longrightarrow> distinct done2"
        using first_reached_done_distinct by blast
      from ys2 show "Manifest_from_spec m mp # ys2 = [] \<and> qs2 = []
          \<or> map located_path (Manifest_from_spec m mp # ys2) = mp # map (manifest_file w) qs2"
        by (simp add: Manifest_from_spec_def)
      from qs2 show "set qs2 \<subseteq> set (?fr @ ps2)" by auto
      from dqs2 show "distinct done \<Longrightarrow> distinct qs2"
        using first_reached_done_distinct [of "done"] first_reached_distinct by auto
    qed
    with r show ?thesis by simp
  qed
qed

lemma manifest_iter_deps_ok:
  "manifest_iter_deps fuel w (map (manifest_entry w) ds) done = Some r
     \<Longrightarrow> manifest_run_ok w ds done r"
  by (rule manifest_iter_deps_ok_step [OF manifest_iter_ok])
subsection \<open>ManifestIter returns\<close>

lemma manifest_iter_deps_returns_step:
  assumes iter: "\<And>pp mp done0. card (set (declared_paths w) - set done0) < fuel
                   \<Longrightarrow> \<exists>r. manifest_iter fuel w pp mp done0 = Some r"
  shows "deps = [] \<or> card (set (declared_paths w) - set done) < fuel
     \<Longrightarrow> \<exists>r. manifest_iter_deps fuel w deps done = Some r"
proof (induction deps arbitrary: "done")
  case Nil
  then show ?case by simp
next
  case (Cons dep deps)
  obtain pp mp where dep: "dep = (pp, mp)" by (cases dep)
  from Cons.prems have small: "card (set (declared_paths w) - set done) < fuel" by simp
  from iter [OF small] obtain ys1 done1 err1 where
    first: "manifest_iter fuel w pp mp done = Some (ys1, done1, err1)"
    by (metis prod_cases3)
  from manifest_iter_ok [OF first] have "set done \<subseteq> set done1"
    by (auto simp: manifest_iter_ok_def)
  from card_Diff_done_mono [OF this, of w] small
  have "deps = [] \<or> card (set (declared_paths w) - set done1) < fuel" by simp
  from Cons.IH [OF this] obtain ys2 done2 err2 where
    "manifest_iter_deps fuel w deps done1 = Some (ys2, done2, err2)"
    by (metis prod_cases3)
  with first dep show ?case by (cases err1) (simp_all del: manifest_iter.simps)
qed

lemma manifest_iter_returns:
  "card (set (declared_paths w) - set done) < fuel
     \<Longrightarrow> \<exists>r. manifest_iter fuel w pp mp done = Some r"
proof (induction fuel arbitrary: pp mp "done")
  case 0
  then show ?case by simp
next
  case (Suc fuel)
  show ?case
  proof (cases "ManifestSpec_load w mp None")
    case (Inl e)
    then show ?thesis by simp
  next
    case (Inr m)
    let ?fr = "first_reached (map dep_path (Manifest_projects m)) done"
    let ?ds = "filter (\<lambda>p. path_exists w (manifest_file w p)) ?fr"
    let ?done1 = "done @ ?fr"
    from ManifestSpec_load_known [OF Inr] have "known w m" by simp
    then have fr: "set ?fr \<subseteq> set (declared_paths w)"
      by (auto simp: known_def first_reached_set)
    have "map (manifest_entry w) ?ds = [] \<or> card (set (declared_paths w) - set ?done1) < fuel"
    proof (cases ?fr)
      case Nil
      then show ?thesis by simp
    next
      case (Cons p ps)
      then have p: "p \<in> set ?fr" by simp
      have "card (set (declared_paths w) - set ?done1) < card (set (declared_paths w) - set done)"
      proof (rule card_Diff_done_less)
        show "set done \<subseteq> set ?done1" by auto
        from fr p show "p \<in> set (declared_paths w)" by auto
        from p show "p \<notin> set done" by (simp add: first_reached_set)
        from p show "p \<in> set ?done1" by simp
      qed
      with Suc.prems show ?thesis by simp
    qed
    then have "\<exists>r. manifest_iter_deps fuel w (map (manifest_entry w) ?ds) ?done1 = Some r"
      by (intro manifest_iter_deps_returns_step Suc.IH)
    then obtain ys2 done2 err2 where
      "manifest_iter_deps fuel w (map (manifest_entry w) ?ds) ?done1 = Some (ys2, done2, err2)"
      by (metis prod_cases3)
    with Inr show ?thesis
      by (simp add: Let_def manifest_loop_eq dependencies_def Manifest_from_spec_def)
  qed
qed

lemma manifest_iter_deps_more_fuel_step:
  assumes iter: "\<And>pp mp done0 r. manifest_iter fuel w pp mp done0 = Some r
                   \<Longrightarrow> manifest_iter (Suc fuel) w pp mp done0 = Some r"
  shows "manifest_iter_deps fuel w deps done = Some r
     \<Longrightarrow> manifest_iter_deps (Suc fuel) w deps done = Some r"
proof (induction deps arbitrary: "done" r)
  case Nil
  then show ?case by simp
next
  case (Cons dep deps)
  obtain pp mp where dep: "dep = (pp, mp)" by (cases dep)
  from Cons.prems dep obtain ys1 done1 err1 where
    first: "manifest_iter fuel w pp mp done = Some (ys1, done1, err1)"
    by (auto split: option.splits)
  note first' = iter [OF first]
  show ?case
  proof (cases err1)
    case (Some e)
    with Cons.prems dep first first' show ?thesis by (auto simp del: manifest_iter.simps)
  next
    case None
    with Cons.prems dep first obtain r2 where
      rest: "manifest_iter_deps fuel w deps done1 = Some r2"
      by (auto split: option.splits)
    from Cons.IH [OF rest] Cons.prems dep first first' None rest show ?thesis
      by (auto simp del: manifest_iter.simps)
  qed
qed

lemma manifest_iter_Suc_fuel:
  "manifest_iter fuel w pp mp done = Some r \<Longrightarrow> manifest_iter (Suc fuel) w pp mp done = Some r"
proof (induction fuel arbitrary: pp mp "done" r)
  case 0
  then show ?case by simp
next
  case (Suc fuel)
  show ?case
  proof (cases "ManifestSpec_load w mp None")
    case (Inl e)
    with Suc.prems show ?thesis by simp
  next
    case (Inr m)
    obtain deps done1 where
      loop: "manifest_loop w (dependencies (Manifest_from_spec m mp)) done = (deps, done1)"
      by (cases "manifest_loop w (dependencies (Manifest_from_spec m mp)) done")
    with Suc.prems Inr obtain r2 where
      rest: "manifest_iter_deps fuel w deps done1 = Some r2"
      by (auto simp: Let_def split: option.splits)
    have "manifest_iter_deps (Suc fuel) w deps done1 = Some r2"
      using rest by (intro manifest_iter_deps_more_fuel_step Suc.IH)
    with Suc.prems Inr loop rest show ?thesis
      by (auto simp: Let_def)
  qed
qed

lemma manifest_iter_more_fuel:
  "manifest_iter fuel w pp mp done = Some r \<Longrightarrow> manifest_iter (fuel + k) w pp mp done = Some r"
  by (induction k) (simp_all add: manifest_iter_Suc_fuel del: manifest_iter.simps)

subsection \<open>Every declared path of a finished run is on done\<close>

lemma covered_mono:
  "covered done0 m \<Longrightarrow> set done0 \<subseteq> set done1 \<Longrightarrow> covered done1 m"
  by (auto simp: covered_def)

lemma closed_run_mono:
  "closed_run w ys done0 \<Longrightarrow> set done0 \<subseteq> set done1 \<Longrightarrow> closed_run w ys done1"
  by (auto simp: closed_run_def list_all_iff covered_def split: sum.splits)

lemma closed_run_append:
  "closed_run w (ys1 @ ys2) done0 \<longleftrightarrow> closed_run w ys1 done0 \<and> closed_run w ys2 done0"
  by (simp add: closed_run_def)

lemma covered_default:
  "covered done0 MANIFEST_DEFAULT"
  by (simp add: covered_def MANIFEST_DEFAULT_def)

text \<open>If the manifests collected for the yielded projects are covered, the run is closed.\<close>

lemma closed_run_children:
  assumes "\<And>pp m. (pp, m) \<in> set (project_children w ys) \<Longrightarrow> covered done0 m"
  shows "closed_run w ys done0"
  unfolding closed_run_def list_all_iff
proof
  fix y
  assume y: "y \<in> set ys"
  show "case manifest_of w y of Inl e \<Rightarrow> True | Inr m \<Rightarrow> covered done0 m"
  proof (cases "manifest_of w y")
    case (Inl e)
    then show ?thesis by simp
  next
    case (Inr m)
    show ?thesis
    proof (cases "m = MANIFEST_DEFAULT")
      case True
      with Inr show ?thesis by (simp add: covered_default)
    next
      case False
      with Inr y have "(path_div (workspace_path w) (Resolved_path y), m) \<in> set (project_children w ys)"
        by (force simp: project_children_def)
      from assms [OF this] Inr show ?thesis by simp
    qed
  qed
qed

lemma project_loop_covers:
  assumes "project_loop w (Manifest_defaults m) (Manifest_remotes m) refurl (Manifest_projects m) done
             = (ys, deps, done', None)"
  shows "covered done' m"
proof -
  from project_loop_first_reached [OF assms] project_loop_done [OF assms]
  have "done' = done @ first_reached (map dep_path (Manifest_projects m)) done" by simp
  then show ?thesis by (auto simp: covered_def first_reached_set)
qed

lemma project_iter_deps_closed_step:
  assumes iter: "\<And>pp m done0 ys done'. known w m
                   \<Longrightarrow> project_iter fuel w ru pp m done0 = Some (ys, done', None)
                   \<Longrightarrow> covered done' m \<and> closed_run w ys done'"
  shows "(\<And>pp m. (pp, m) \<in> set deps \<Longrightarrow> known w m)
     \<Longrightarrow> project_iter_deps fuel w ru deps done = Some (ys, done', None)
     \<Longrightarrow> (\<forall>(pp, m) \<in> set deps. covered done' m) \<and> closed_run w ys done'"
proof (induction deps arbitrary: "done" ys done')
  case Nil
  then show ?case by (simp add: closed_run_def)
next
  case (Cons dep deps)
  obtain pp m where dep: "dep = (pp, m)" by (cases dep)
  from Cons.prems(1) [of pp m] dep have km: "known w m" by simp
  have kdeps: "known w m'" if "(pp', m') \<in> set deps" for pp' m'
    using Cons.prems(1) [of pp' m'] that by simp
  from Cons.prems(2) dep obtain ys1 done1 err1 where
    first: "project_iter fuel w ru pp m done = Some (ys1, done1, err1)"
    by (auto split: option.splits)
  from Cons.prems(2) dep first have err1: "err1 = None"
    by (cases err1) (auto simp del: project_iter.simps)
  with Cons.prems(2) dep first obtain ys2 where
    rest: "project_iter_deps fuel w ru deps done1 = Some (ys2, done', None)"
    and ys: "ys = ys1 @ ys2"
    by (auto simp del: project_iter.simps split: option.splits)
  from iter [OF km] first err1 have c1: "covered done1 m" "closed_run w ys1 done1" by simp_all
  from project_iter_deps_ok [OF kdeps rest] have mono: "set done1 \<subseteq> set done'"
    by (auto simp: project_run_ok_def)
  from Cons.IH [OF kdeps rest]
  have c2: "\<forall>(pp, m) \<in> set deps. covered done' m" "closed_run w ys2 done'" by simp_all
  from c1 mono have "covered done' m" "closed_run w ys1 done'"
    by (auto intro: covered_mono closed_run_mono)
  with c2 dep ys show ?case by (simp add: closed_run_append)
qed

lemma project_iter_closed:
  "known w m \<Longrightarrow> project_iter fuel w ru pp m done = Some (ys, done', None)
     \<Longrightarrow> covered done' m \<and> closed_run w ys done'"
proof (induction fuel arbitrary: pp m "done" ys done')
  case 0
  then show ?case by simp
next
  case (Suc fuel)
  from Suc.prems(2) have cloned: "\<not> (ru \<and> \<not> git_is_cloned w pp)"
    by (auto split: if_splits)
  let ?refurl = "if ru then git_get_url w pp else None"
  obtain ys1 deps done1 err1 where
    loop: "project_loop w (Manifest_defaults m) (Manifest_remotes m) ?refurl
             (Manifest_projects m) done = (ys1, deps, done1, err1)"
    by (metis prod_cases4)
  from Suc.prems(2) cloned loop have err1: "err1 = None"
    by (cases err1) (auto simp: Let_def)
  with Suc.prems(2) cloned loop obtain ys2 where
    rest: "project_iter_deps fuel w ru deps done1 = Some (ys2, done', None)"
    and ys: "ys = ys1 @ ys2"
    by (auto simp: Let_def split: option.splits)
  have deps: "deps = project_children w ys1" by (rule project_loop_children [OF loop])
  have kdeps: "\<And>pp m. (pp, m) \<in> set deps \<Longrightarrow> known w m"
    using deps project_children_known by blast
  from project_iter_deps_ok [OF kdeps rest] have mono: "set done1 \<subseteq> set done'"
    by (auto simp: project_run_ok_def)
  from loop err1 have "covered done1 m" by (auto intro: project_loop_covers)
  from this mono have cm: "covered done' m" by (rule covered_mono)
  have "(\<forall>(pp, m) \<in> set deps. covered done' m) \<and> closed_run w ys2 done'"
    using kdeps rest by (intro project_iter_deps_closed_step Suc.IH)
  then have children: "\<And>pp m. (pp, m) \<in> set (project_children w ys1) \<Longrightarrow> covered done' m"
    and c2: "closed_run w ys2 done'"
    using deps by auto
  from closed_run_children [OF children] have "closed_run w ys1 done'" .
  with c2 cm ys show ?case by (simp add: closed_run_append)
qed
subsection \<open>The iterators on the fixture\<close>

lemma ProjectIter_repos_3:
  "ProjectIter 3 repos ''ws/main/anyrepo.toml'' False False
     = Some (fixture_projects, fixture_done, None)"
  by code_simp

lemma ManifestIter_repos_3:
  "ManifestIter 3 repos ''ws/main/anyrepo.toml'' = Some (fixture_manifests, fixture_done, None)"
  by code_simp

text \<open>
  On the workspace with the cycle both iterators return; the main project, whose path is
  never put on \<open>done\<close>, comes a second time as the dependency of \<^verbatim>\<open>dep1\<close>.
\<close>

lemma ProjectIter_cyclic_repos_3:
  "ProjectIter 3 cyclic_repos ''ws/main/anyrepo.toml'' False False
     = Some ([resolved ''main'' None None,
              resolved ''dep1'' (Some ''../dep1'') None,
              resolved ''main'' (Some ''../main'') None],
             [''dep1'', ''main''], None)"
  by code_simp

lemma ManifestIter_cyclic_repos_3:
  "map located_path (fst (the (ManifestIter 3 cyclic_repos ''ws/main/anyrepo.toml'')))
     = [''ws/main/anyrepo.toml'', ''ws/dep1/anyrepo.toml'', ''ws/main/anyrepo.toml'']"
  by code_simp
subsection \<open>The iterators from the root manifest\<close>

lemma ProjectIter_more_fuel:
  "ProjectIter fuel w mp skip_main ru = Some r \<Longrightarrow> ProjectIter (fuel + k) w mp skip_main ru = Some r"
  unfolding ProjectIter_def Let_def
  by (auto split: sum.splits option.splits dest: project_iter_more_fuel [where k = k])

lemma ManifestIter_more_fuel:
  "ManifestIter fuel w mp = Some r \<Longrightarrow> ManifestIter (fuel + k) w mp = Some r"
  unfolding ManifestIter_def by (rule manifest_iter_more_fuel)

lemma ProjectIter_returns:
  assumes "card (set (declared_paths w)) < fuel"
  shows "\<exists>r. ProjectIter fuel w mp skip_main ru = Some r"
proof (cases "ManifestSpec_load w mp (Some MANIFEST_DEFAULT)")
  case (Inl e)
  then show ?thesis by (simp add: ProjectIter_def)
next
  case (Inr m)
  from ManifestSpec_load_known [OF Inr] have "known w m" by simp
  from project_iter_returns [OF this, of "[]" fuel ru "workspace_main_path w"] assms
  obtain ys done1 err where "project_iter fuel w ru (workspace_main_path w) m [] = Some (ys, done1, err)"
    by (auto simp del: project_iter.simps)
  with Inr show ?thesis by (simp add: ProjectIter_def del: project_iter.simps)
qed

lemma ManifestIter_returns:
  assumes "card (set (declared_paths w)) < fuel"
  shows "\<exists>r. ManifestIter fuel w mp = Some r"
  using manifest_iter_returns [of w "[]" fuel "workspace_main_path w" mp] assms
  by (simp add: ManifestIter_def del: manifest_iter.simps)

lemma ProjectIter_ok:
  assumes "ProjectIter fuel w mp skip_main ru = Some (ys, done, err)"
  shows "map Resolved_path (dependency_part skip_main ys) = done"
    and "distinct done"
    and "set done \<subseteq> set (declared_paths w)"
    and "\<not> skip_main \<Longrightarrow> ys \<noteq> [] \<and> hd ys = main_project w"
proof -
  have "map Resolved_path (dependency_part skip_main ys) = done \<and> distinct done
      \<and> set done \<subseteq> set (declared_paths w) \<and> (\<not> skip_main \<longrightarrow> ys \<noteq> [] \<and> hd ys = main_project w)"
  proof (cases "ManifestSpec_load w mp (Some MANIFEST_DEFAULT)")
    case (Inl e)
    with assms show ?thesis
      by (auto simp: ProjectIter_def dependency_part_def)
  next
    case (Inr m)
    from ManifestSpec_load_known [OF Inr] have km: "known w m" by simp
    from assms Inr obtain ys1 where
      run: "project_iter fuel w ru (workspace_main_path w) m [] = Some (ys1, done, err)"
      and ys: "ys = (if \<not> skip_main then [main_project w] else []) @ ys1"
      by (auto simp: ProjectIter_def Let_def simp del: project_iter.simps split: option.splits)
    from project_iter_ok [OF km run] ys show ?thesis
      by (auto simp: project_run_ok_def dependency_part_def)
  qed
  then show "map Resolved_path (dependency_part skip_main ys) = done"
    and "distinct done"
    and "set done \<subseteq> set (declared_paths w)"
    and "\<not> skip_main \<Longrightarrow> ys \<noteq> [] \<and> hd ys = main_project w"
    by blast+
qed

lemma ProjectIter_closed:
  assumes "ProjectIter fuel w mp skip_main ru = Some (ys, done, None)"
  shows "\<exists>m. ManifestSpec_load w mp (Some MANIFEST_DEFAULT) = Inr m \<and> covered done m
           \<and> closed_run w (dependency_part skip_main ys) done"
proof (cases "ManifestSpec_load w mp (Some MANIFEST_DEFAULT)")
  case (Inl e)
  with assms show ?thesis by (simp add: ProjectIter_def)
next
  case (Inr m)
  from ManifestSpec_load_known [OF Inr] have km: "known w m" by simp
  from assms Inr obtain ys1 where
    run: "project_iter fuel w ru (workspace_main_path w) m [] = Some (ys1, done, None)"
    and ys: "ys = (if \<not> skip_main then [main_project w] else []) @ ys1"
    by (auto simp: ProjectIter_def Let_def simp del: project_iter.simps split: option.splits)
  from project_iter_closed [OF km run] ys Inr show ?thesis
    by (auto simp: dependency_part_def)
qed

lemma ManifestIter_ok:
  assumes "ManifestIter fuel w mp = Some (ys, done, err)"
  shows "\<exists>qs. (ys = [] \<and> qs = [] \<or> map located_path ys = mp # map (manifest_file w) qs)
           \<and> distinct qs \<and> set qs \<subseteq> set done
           \<and> distinct done \<and> set done \<subseteq> set (declared_paths w)"
proof -
  from assms have "manifest_iter_ok w mp [] (ys, done, err)"
    unfolding ManifestIter_def by (rule manifest_iter_ok)
  then obtain ps qs where
    "done = [] @ ps" "set ps \<subseteq> set (declared_paths w)"
    "distinct ([] :: string list) \<longrightarrow> distinct done"
    "ys = [] \<and> qs = [] \<or> map located_path ys = mp # map (manifest_file w) qs"
    "set qs \<subseteq> set ps" "distinct ([] :: string list) \<longrightarrow> distinct qs"
    unfolding manifest_iter_ok_def prod.case by (elim exE conjE) (rule that, assumption+)
  then have "(ys = [] \<and> qs = [] \<or> map located_path ys = mp # map (manifest_file w) qs)
           \<and> distinct qs \<and> set qs \<subseteq> set done
           \<and> distinct done \<and> set done \<subseteq> set (declared_paths w)"
    by simp
  then show ?thesis by (rule exI)
qed

lemma distinct_card_le:
  "distinct xs \<Longrightarrow> set xs \<subseteq> set zs \<Longrightarrow> length xs \<le> card (set zs)"
  by (metis List.finite_set card_mono distinct_card)
subsection \<open>ManifestIter yields manifests of files that exist\<close>

lemma manifest_iter_deps_loaded_step:
  assumes iter: "\<And>pp mp done0 ys done' err. manifest_iter fuel w pp mp done0 = Some (ys, done', err)
                   \<Longrightarrow> loaded_run w ys"
  shows "manifest_iter_deps fuel w deps done = Some (ys, done', err) \<Longrightarrow> loaded_run w ys"
proof (induction deps arbitrary: "done" ys done' err)
  case Nil
  then show ?case by (simp add: loaded_run_def)
next
  case (Cons dep deps)
  obtain pp mp where dep: "dep = (pp, mp)" by (cases dep)
  from Cons.prems dep obtain ys1 done1 err1 where
    first: "manifest_iter fuel w pp mp done = Some (ys1, done1, err1)"
    by (auto split: option.splits)
  from iter [OF first] have l1: "loaded_run w ys1" .
  show ?case
  proof (cases err1)
    case (Some e)
    with Cons.prems dep first l1 show ?thesis by (auto simp del: manifest_iter.simps)
  next
    case None
    with Cons.prems dep first obtain ys2 done2 err2 where
      rest: "manifest_iter_deps fuel w deps done1 = Some (ys2, done2, err2)"
      and ys: "ys = ys1 @ ys2"
      by (auto simp del: manifest_iter.simps split: option.splits)
    from Cons.IH [OF rest] l1 ys show ?thesis by (simp add: loaded_run_def)
  qed
qed

lemma manifest_iter_loaded:
  "manifest_iter fuel w pp mp done = Some (ys, done', err) \<Longrightarrow> loaded_run w ys"
proof (induction fuel arbitrary: pp mp "done" ys done' err)
  case 0
  then show ?case by simp
next
  case (Suc fuel)
  show ?case
  proof (cases "ManifestSpec_load w mp None")
    case (Inl e)
    with Suc.prems show ?thesis by (simp add: loaded_run_def)
  next
    case (Inr m)
    then have on_disk: "map_of (files w) mp = Some (Inr m)"
      by (auto simp: ManifestSpec_load_def split: option.splits)
    let ?fr = "first_reached (map dep_path (Manifest_projects m)) done"
    let ?ds = "filter (\<lambda>p. path_exists w (manifest_file w p)) ?fr"
    from Suc.prems Inr obtain ys2 where
      rest: "manifest_iter_deps fuel w (map (manifest_entry w) ?ds) (done @ ?fr) = Some (ys2, done', err)"
      and ys: "ys = Manifest_from_spec m mp # ys2"
      by (auto simp: Let_def manifest_loop_eq dependencies_def Manifest_from_spec_def
          split: option.splits)
    have "loaded_run w ys2"
    proof (rule manifest_iter_deps_loaded_step [OF _ rest])
      fix pp' mp' done0 ys' done1 err'
      assume "manifest_iter fuel w pp' mp' done0 = Some (ys', done1, err')"
      then show "loaded_run w ys'" by (rule Suc.IH)
    qed
    then have "list_all (\<lambda>y. map_of (files w) (located_path y) = Some (Inr (located_spec y))) ys2"
      by (simp only: loaded_run_def)
    moreover have "located_path (Manifest_from_spec m mp) = mp"
      "located_spec (Manifest_from_spec m mp) = m"
      by (simp_all add: Manifest_from_spec_def)
    ultimately show ?thesis
      unfolding loaded_run_def ys using on_disk by simp
  qed
qed

lemma ManifestIter_loaded:
  "ManifestIter fuel w mp = Some (ys, done, err) \<Longrightarrow> loaded_run w ys"
  unfolding ManifestIter_def by (rule manifest_iter_loaded)

subsection \<open>The claims about the iterators\<close>

text \<open>
  C1: on the repositories of the fixture (the root manifest declares \<^verbatim>\<open>dep1\<close> and
  \<^verbatim>\<open>dep2\<close> with revision \<^verbatim>\<open>1-feature\<close>, \<^verbatim>\<open>dep1\<close> declares \<^verbatim>\<open>dep4\<close>, \<^verbatim>\<open>dep2\<close> declares
  \<^verbatim>\<open>dep3\<close> and \<^verbatim>\<open>dep4\<close>), \<^verbatim>\<open>ProjectIter\<close> with \<^verbatim>\<open>skip_main=False\<close> yields exactly main, dep1,
  dep2, dep4, dep3 in this order and ends without an exception; the revision of dep2 is
  \<^verbatim>\<open>1-feature\<close> and every other revision is absent. Three levels of recursion are
  enough, and any more give the same.
\<close>

theorem ProjectIter_fixture_order:
  "ProjectIter (3 + k) repos ''ws/main/anyrepo.toml'' False False
     = Some ([resolved ''main'' None None,
              resolved ''dep1'' (Some ''../dep1'') None,
              resolved ''dep2'' (Some ''../dep2'') (Some ''1-feature''),
              resolved ''dep4'' (Some ''../dep4'') None,
              resolved ''dep3'' (Some ''../dep3'') None],
             [''dep1'', ''dep2'', ''dep4'', ''dep3''], None)"
  using ProjectIter_more_fuel [OF ProjectIter_repos_3, of k]
  by (simp only: fixture_projects_def fixture_done_def)






end
